theory Spec2Isabelle
  imports Main "HOL-Library.Sublist"
begin

text \<open>
  The contact finder: a request handler that resolves the domain of a company website,
  infers the pattern of the company's addresses from its pages, reads persons from
  profile references, and synthesizes an address for each person. The model follows the
  handler function by function; its theorems are the properties of the specification.
\<close>

section \<open>Strings\<close>

text \<open>
  A JavaScript string is a sequence of UTF-16 code units. The strings of the model are the
  HOL strings: a character is a code unit below 256, that is, a character of Basic Latin
  or of the Latin-1 Supplement, and every function on strings is the function of
  ECMAScript on these code units. Where the outcome of a function can hold a code unit
  of 256 or more (the upper case, the canonical decomposition), it is a list of code
  units as natural numbers.
\<close>

definition char_code :: "char \<Rightarrow> nat" where
  "char_code c = of_char c"

definition is_lower :: "char \<Rightarrow> bool" where
  "is_lower c = (97 \<le> char_code c \<and> char_code c \<le> 122)"

definition is_upper :: "char \<Rightarrow> bool" where
  "is_upper c = (65 \<le> char_code c \<and> char_code c \<le> 90)"

definition is_alpha :: "char \<Rightarrow> bool" where
  "is_alpha c = (is_lower c \<or> is_upper c)"

definition is_digit :: "char \<Rightarrow> bool" where
  "is_digit c = (48 \<le> char_code c \<and> char_code c \<le> 57)"

text \<open>
  The white space and the line terminators of ECMAScript below 256, which \<open>trim\<close> strips
  and \<^verbatim>\<open>\s\<close> matches: TAB, LF, VT, FF, CR, SP and the no-break space U+00A0.
\<close>

definition is_space :: "char \<Rightarrow> bool" where
  "is_space c =
     ((9 \<le> char_code c \<and> char_code c \<le> 13) \<or> char_code c = 32 \<or> char_code c = 160)"

text \<open>
  The lower case of a code unit: \<open>A\<close> to \<open>Z\<close> and U+00C0 to U+00DE without the
  multiplication sign U+00D7 go 32 up, every other code unit below 256 stays.
\<close>

definition has_lower_case :: "char \<Rightarrow> bool" where
  "has_lower_case c =
     (is_upper c \<or> (192 \<le> char_code c \<and> char_code c \<le> 222 \<and> char_code c \<noteq> 215))"

definition lower_char :: "char \<Rightarrow> char" where
  "lower_char c = (if has_lower_case c then char_of (char_code c + 32) else c)"

text \<open>
  The upper case of a code unit, as code units: \<open>a\<close> to \<open>z\<close> and U+00E0 to U+00FE without
  the division sign U+00F7 go 32 down, the sharp s U+00DF is \<open>SS\<close>, the y with diaeresis
  U+00FF is U+0178, the micro sign U+00B5 is U+039C, every other code unit below 256
  stays.
\<close>

definition upper_units :: "char \<Rightarrow> nat list" where
  "upper_units c =
     (if is_lower c \<or> (224 \<le> char_code c \<and> char_code c \<le> 254 \<and> char_code c \<noteq> 247)
      then [char_code c - 32]
      else if char_code c = 223 then [83, 83]
      else if char_code c = 255 then [376]
      else if char_code c = 181 then [924]
      else [char_code c])"

text \<open>A list of code units below 256 as a string.\<close>

definition string_of_units :: "nat list \<Rightarrow> string" where
  "string_of_units us = map char_of us"

definition toLowerCase :: "string \<Rightarrow> string" where
  "toLowerCase s = map lower_char s"

definition toUpperCase :: "string \<Rightarrow> nat list" where
  "toUpperCase s = concat (map upper_units s)"

definition trim :: "string \<Rightarrow> string" where
  "trim s = rev (dropWhile is_space (rev (dropWhile is_space s)))"

definition startsWith :: "string \<Rightarrow> string \<Rightarrow> bool" where
  "startsWith s p = prefix p s"

definition endsWith :: "string \<Rightarrow> string \<Rightarrow> bool" where
  "endsWith s p = suffix p s"

definition includes_str :: "string \<Rightarrow> string \<Rightarrow> bool" where
  "includes_str s k = sublist k s"

text \<open>\<open>xs.join(sep)\<close>.\<close>

fun join :: "string \<Rightarrow> string list \<Rightarrow> string" where
  "join sep [] = []"
| "join sep [x] = x"
| "join sep (x # y # ys) = x @ sep @ join sep (y # ys)"

text \<open>\<open>s.split(c)\<close> for a one-character separator: the pieces, empty ones included.\<close>

fun split_char :: "char \<Rightarrow> string \<Rightarrow> string list" where
  "split_char d [] = [[]]"
| "split_char d (c # cs) =
     (if c = d then [] # split_char d cs
      else (case split_char d cs of [] \<Rightarrow> [[c]] | w # ws \<Rightarrow> (c # w) # ws))"

text \<open>
  \<open>s.split(/[...]+/)\<close> for a character class \<open>P\<close>: the pieces between maximal runs of
  separators. The flag tells whether the previous character was a separator.
\<close>

fun split_runs :: "(char \<Rightarrow> bool) \<Rightarrow> bool \<Rightarrow> string \<Rightarrow> string list" where
  "split_runs P insep [] = [[]]"
| "split_runs P insep (c # cs) =
     (if P c then (if insep then split_runs P True cs else [] # split_runs P True cs)
      else (case split_runs P False cs of [] \<Rightarrow> [[c]] | w # ws \<Rightarrow> (c # w) # ws))"

text \<open>\<open>xs.filter(Boolean)\<close> on an array of strings: the empty string is falsy.\<close>

definition filter_Boolean :: "string list \<Rightarrow> string list" where
  "filter_Boolean xs = filter (\<lambda>x. x \<noteq> []) xs"

text \<open>\<open>xs.pop()\<close> as a value: the last element, \<open>undefined\<close> on the empty array.\<close>

fun pop :: "'a list \<Rightarrow> 'a option" where
  "pop [] = None"
| "pop [x] = Some x"
| "pop (x # y # ys) = pop (y # ys)"

text \<open>\<open>Array.from(new Set(xs))\<close>: the distinct elements in the order of first insertion.\<close>

fun set_order :: "'a list \<Rightarrow> 'a list" where
  "set_order [] = []"
| "set_order (x # xs) = x # filter (\<lambda>y. y \<noteq> x) (set_order xs)"

section \<open>Tables\<close>

definition FREE_PROVIDERS :: "string list" where
  "FREE_PROVIDERS =
     [''gmail.com'', ''yahoo.com'', ''outlook.com'', ''hotmail.com'', ''icloud.com'',
      ''aol.com'', ''protonmail.com'', ''zoho.com'', ''yandex.com'', ''gmx.com'', ''mail.com'']"

definition ROLE_KEYWORDS :: "(string list \<times> string) list" where
  "ROLE_KEYWORDS =
     [([''founder'', ''cofounder'', ''co-founder''], ''Founder''),
      ([''ceo'', ''chiefexecutiveofficer''], ''CEO''),
      ([''c-suite'', ''executive''], ''Executive''),
      ([''cfo'', ''chieffinancialofficer'', ''financehead'', ''finance''], ''Finance Head''),
      ([''operations'', ''ops'', ''headoperations'', ''operationshead''], ''Operations Head'')]"

text \<open>The five pattern names; every pattern value of the program is one of these literals.\<close>

datatype pattern = FirstLast | Firstlast | FirstinitialLast | FirstLastinitial | First

fun pattern_name :: "pattern \<Rightarrow> string" where
  "pattern_name FirstLast = ''first.last''"
| "pattern_name Firstlast = ''firstlast''"
| "pattern_name FirstinitialLast = ''firstinitial.last''"
| "pattern_name FirstLastinitial = ''first.lastinitial''"
| "pattern_name First = ''first''"

definition FALLBACK_PATTERNS :: "pattern list" where
  "FALLBACK_PATTERNS = [FirstLast, First, Firstlast, FirstinitialLast, FirstLastinitial]"

fun PATTERN_PRIORITY :: "pattern \<Rightarrow> int" where
  "PATTERN_PRIORITY FirstLast = 5"
| "PATTERN_PRIORITY Firstlast = 4"
| "PATTERN_PRIORITY FirstinitialLast = 3"
| "PATTERN_PRIORITY FirstLastinitial = 3"
| "PATTERN_PRIORITY First = 2"

text \<open>\<open>ROLE_PRIORITY[label] || 0\<close>.\<close>

definition ROLE_PRIORITY :: "string \<Rightarrow> int" where
  "ROLE_PRIORITY l =
     (case map_of [(''Founder'', 5), (''CEO'', 4), (''Executive'', 3),
                   (''Operations Head'', 2), (''Finance Head'', 2)] l of
        Some n \<Rightarrow> n | None \<Rightarrow> 0)"

datatype confidence = High | Medium | Low

section \<open>The platform\<close>

text \<open>
  Two collaborators are not part of the program and are parameters of the model.

  \<open>new URL(s)\<close>: a function \<open>URL\<close> from the string to the parsed URL, \<open>None\<close> when the
  constructor throws. Only \<open>hostname\<close> and \<open>pathname\<close> are read.

  \<open>fetch\<close> behind \<open>fetchHtml\<close>: the function returns the body text of a successful
  answer and \<open>null\<close> on every failure, and never throws. The network is a state \<open>'w\<close>
  that each call may change.
\<close>

record url =
  hostname :: string
  pathname :: string

type_synonym url_parser = "string \<Rightarrow> url option"

type_synonym 'w fetcher = "'w \<Rightarrow> string \<Rightarrow> string option \<times> 'w"

section \<open>Domain resolver\<close>

text \<open>
  \<open>deriveDomain\<close>, lines 137 to 143: the string handed to \<open>new URL\<close>, or \<open>None\<close> when
  the function has returned \<open>null\<close> before.
\<close>

definition deriveDomain_value :: "string \<Rightarrow> string option" where
  "deriveDomain_value input =
     (if input = [] then None
      else let v = trim input in
        if v = [] then None
        else if \<not> startsWith v ''http'' then Some (''https://'' @ v)
        else Some v)"

text \<open>\<open>deriveDomain\<close>, lines 145 to 154.\<close>

definition deriveDomain :: "url_parser \<Rightarrow> string \<Rightarrow> string option" where
  "deriveDomain URL input =
     (case deriveDomain_value input of
        None \<Rightarrow> None
      | Some v \<Rightarrow>
          (case URL v of
             None \<Rightarrow> None
           | Some u \<Rightarrow>
               (let host = toLowerCase (hostname u)
                in if startsWith host ''www.'' then Some (drop 4 host) else Some host)))"

section \<open>Pattern inferencer\<close>

text \<open>The anchored regular expressions of \<open>inferPattern\<close>, each as a recogniser.\<close>

text \<open>\<^verbatim>\<open>/^[a-z]+\.{1}[a-z]+$/\<close>\<close>

definition re_first_last :: "string \<Rightarrow> bool" where
  "re_first_last s =
     (takeWhile is_lower s \<noteq> [] \<and>
      (case dropWhile is_lower s of
         [] \<Rightarrow> False
       | c # v \<Rightarrow> c = CHR ''.'' \<and> v \<noteq> [] \<and> list_all is_lower v))"

text \<open>\<^verbatim>\<open>/^[a-z]+[a-z]+$/\<close>\<close>

definition re_firstlast :: "string \<Rightarrow> bool" where
  "re_firstlast s = (list_all is_lower s \<and> 2 \<le> length s)"

text \<open>\<^verbatim>\<open>/^[a-z]\.[a-z]+$/\<close>\<close>

definition re_firstinitial_last :: "string \<Rightarrow> bool" where
  "re_firstinitial_last s =
     (case s of
        a # d # v \<Rightarrow> is_lower a \<and> d = CHR ''.'' \<and> v \<noteq> [] \<and> list_all is_lower v
      | _ \<Rightarrow> False)"

text \<open>\<^verbatim>\<open>/^[a-z]+\.{1}[a-z]$/\<close>\<close>

definition re_first_lastinitial :: "string \<Rightarrow> bool" where
  "re_first_lastinitial s =
     (takeWhile is_lower s \<noteq> [] \<and>
      (case dropWhile is_lower s of
         [d, z] \<Rightarrow> d = CHR ''.'' \<and> is_lower z
       | _ \<Rightarrow> False))"

text \<open>\<^verbatim>\<open>/^[a-z]+$/\<close>\<close>

definition re_first :: "string \<Rightarrow> bool" where
  "re_first s = (s \<noteq> [] \<and> list_all is_lower s)"

definition inferPattern :: "string \<Rightarrow> pattern option" where
  "inferPattern localPart =
     (let sanitized = filter is_alpha localPart
      in if localPart = [] then None
         else if re_first_last localPart then Some FirstLast
         else if re_firstlast localPart \<and> 4 \<le> length sanitized then Some Firstlast
         else if re_firstinitial_last localPart then Some FirstinitialLast
         else if re_first_lastinitial localPart then Some FirstLastinitial
         else if re_first localPart then Some First
         else None)"

text \<open>
  A JavaScript \<open>Map\<close> keeps its keys in the order of first insertion: an association
  list, where \<open>set\<close> on a present key replaces the value in place.
\<close>

fun map_set :: "('k \<times> 'v) list \<Rightarrow> 'k \<Rightarrow> 'v \<Rightarrow> ('k \<times> 'v) list" where
  "map_set [] k v = [(k, v)]"
| "map_set ((k', v') # m) k v = (if k' = k then (k, v) # m else (k', v') # map_set m k v)"

text \<open>\<open>email.split("@")[0]\<close>: the text before the first \<open>@\<close>.\<close>

definition local_of :: "string \<Rightarrow> string" where
  "local_of email = takeWhile (\<lambda>c. c \<noteq> CHR ''@'') email"

text \<open>The first loop of \<open>selectPattern\<close>.\<close>

fun score_loop :: "(pattern \<times> int) list \<Rightarrow> string list \<Rightarrow> (pattern \<times> int) list" where
  "score_loop patternScores [] = patternScores"
| "score_loop patternScores (email # emails) =
     (case inferPattern (local_of email) of
        None \<Rightarrow> score_loop patternScores emails
      | Some p \<Rightarrow>
          score_loop
            (map_set patternScores p
               ((case map_of patternScores p of None \<Rightarrow> 0 | Some s \<Rightarrow> s) +
                (if PATTERN_PRIORITY p = 0 then 1 else PATTERN_PRIORITY p)))
            emails)"

text \<open>The second loop; \<open>bestScore = None\<close> stands for \<open>-Infinity\<close>.\<close>

fun best_loop :: "pattern option \<Rightarrow> int option \<Rightarrow> (pattern \<times> int) list \<Rightarrow> pattern option" where
  "best_loop bestPattern bestScore [] = bestPattern"
| "best_loop bestPattern bestScore ((p, score) # rest) =
     (if (case bestScore of None \<Rightarrow> True | Some b \<Rightarrow> b < score)
      then best_loop (Some p) (Some score) rest
      else best_loop bestPattern bestScore rest)"

definition selectPattern :: "string list \<Rightarrow> pattern option" where
  "selectPattern emails = best_loop None None (score_loop [] emails)"

subsection \<open>The address grammar\<close>

text \<open>
  \<^verbatim>\<open>EMAIL_REGEX = /[A-Z0-9._%+-]+@[A-Z0-9.-]+\.[A-Z]{2,}/gi\<close> and \<open>html.match\<close>: all
  matches from left to right, each the leftmost and, by the greedy quantifiers with
  backtracking, the one the engine finds first.
\<close>

definition is_local_char :: "char \<Rightarrow> bool" where
  "is_local_char c = (is_alpha c \<or> is_digit c \<or> c \<in> set ''._%+-'')"

definition is_host_char :: "char \<Rightarrow> bool" where
  "is_host_char c = (is_alpha c \<or> is_digit c \<or> c \<in> set ''.-'')"

text \<open>\<^verbatim>\<open>\.[A-Z]{2,}\<close> at the start of \<open>t\<close>: the number of characters it takes.\<close>

definition tld_at :: "string \<Rightarrow> nat option" where
  "tld_at t =
     (case t of
        [] \<Rightarrow> None
      | c # r \<Rightarrow>
          if c = CHR ''.'' \<and> 2 \<le> length (takeWhile is_alpha r)
          then Some (Suc (length (takeWhile is_alpha r))) else None)"

text \<open>
  \<open>h\<close> is the maximal run of host characters after the \<open>@\<close>. The greedy host class first
  takes all of it and gives characters back one at a time until the rest matches: \<open>j\<close>
  counts the characters it holds. The result is the length of the host with its ending.
\<close>

fun host_end :: "string \<Rightarrow> nat \<Rightarrow> nat option" where
  "host_end h 0 = None"
| "host_end h (Suc j) =
     (case tld_at (drop (Suc j) h) of
        Some m \<Rightarrow> Some (Suc j + m)
      | None \<Rightarrow> host_end h j)"

text \<open>One attempt at the start of \<open>s\<close>: the matched text.\<close>

definition match_at :: "string \<Rightarrow> string option" where
  "match_at s =
     (let l = takeWhile is_local_char s
      in if l = [] then None
         else (case dropWhile is_local_char s of
                 [] \<Rightarrow> None
               | c # r \<Rightarrow>
                   if c \<noteq> CHR ''@'' then None
                   else (let h = takeWhile is_host_char r
                         in (case host_end h (length h) of
                               None \<Rightarrow> None
                             | Some n \<Rightarrow> Some (l @ ''@'' @ take n h)))))"

text \<open>The scan; \<open>k\<close> characters of the last match are still to be passed over.\<close>

fun match_all :: "nat \<Rightarrow> string \<Rightarrow> string list" where
  "match_all k [] = []"
| "match_all (Suc k) (c # cs) = match_all k cs"
| "match_all 0 (c # cs) =
     (case match_at (c # cs) of
        Some m \<Rightarrow> m # match_all (length m - 1) cs
      | None \<Rightarrow> match_all 0 cs)"

text \<open>\<open>html.match(EMAIL_REGEX) || []\<close>\<close>

definition match_EMAIL_REGEX :: "string \<Rightarrow> string list" where
  "match_EMAIL_REGEX html = match_all 0 html"

definition businessEmails :: "string \<Rightarrow> string \<Rightarrow> string list" where
  "businessEmails html domain =
     filter (\<lambda>email. endsWith email (''@'' @ domain)) (map toLowerCase (match_EMAIL_REGEX html))"

section \<open>Pattern discovery\<close>

definition buildDiscoveryUrls :: "string \<Rightarrow> string list" where
  "buildDiscoveryUrls domain =
     (let base = ''https://'' @ domain;
          withoutWww = (if startsWith domain ''www.'' then drop 4 domain else domain);
          withWww = (if withoutWww = domain then ''www.'' @ domain else domain)
      in set_order
           [''https://'' @ withoutWww, ''https://'' @ withWww,
            ''http://'' @ withoutWww, ''http://'' @ withWww,
            base @ ''/contact'', base @ ''/team'', base @ ''/about''])"

definition hints :: "(pattern \<times> string list) list" where
  "hints =
     [(FirstLast, [''io'', ''tech'', ''systems'', ''labs'']),
      (FirstinitialLast, [''finance'', ''bank'', ''capital'']),
      (Firstlast, [''media'', ''creative'', ''studio''])]"

fun guess_loop :: "string \<Rightarrow> (pattern \<times> string list) list \<Rightarrow> pattern option" where
  "guess_loop domain [] = None"
| "guess_loop domain ((p, keywords) # rest) =
     (if list_ex (\<lambda>keyword. includes_str domain keyword) keywords then Some p
      else guess_loop domain rest)"

definition guessPatternFromDomain :: "string \<Rightarrow> pattern option" where
  "guessPatternFromDomain domain = guess_loop domain hints"

record discovery =
  d_pattern :: "pattern option"
  d_confidence :: confidence
  d_source :: string

text \<open>The loop of \<open>discoverPattern\<close>: the pattern found and the page it was found on.\<close>

fun discover_loop ::
  "'w fetcher \<Rightarrow> string \<Rightarrow> 'w \<Rightarrow> string list \<Rightarrow> (pattern \<times> string) option \<times> 'w" where
  "discover_loop fetchHtml domain w [] = (None, w)"
| "discover_loop fetchHtml domain w (u # urls) =
     (case fetchHtml w u of
        (None, w') \<Rightarrow> discover_loop fetchHtml domain w' urls
      | (Some html, w') \<Rightarrow>
          if html = [] then discover_loop fetchHtml domain w' urls
          else if businessEmails html domain \<noteq> [] then
            (case selectPattern (businessEmails html domain) of
               Some p \<Rightarrow> (Some (p, u), w')
             | None \<Rightarrow> discover_loop fetchHtml domain w' urls)
          else discover_loop fetchHtml domain w' urls)"

definition discoverPattern :: "'w fetcher \<Rightarrow> 'w \<Rightarrow> string \<Rightarrow> discovery \<times> 'w" where
  "discoverPattern fetchHtml w domain =
     (case discover_loop fetchHtml domain w (buildDiscoveryUrls domain) of
        (Some (p, u), w') \<Rightarrow>
          (\<lparr>d_pattern = Some p, d_confidence = High, d_source = u\<rparr>, w')
      | (None, w') \<Rightarrow>
          (case guessPatternFromDomain domain of
             Some p \<Rightarrow>
               (\<lparr>d_pattern = Some p, d_confidence = Medium,
                 d_source = ''https://'' @ domain\<rparr>, w')
           | None \<Rightarrow>
               (\<lparr>d_pattern = None, d_confidence = Low,
                 d_source = ''https://'' @ domain\<rparr>, w')))"

section \<open>Identifier parser\<close>

text \<open>A person; \<open>lastName = None\<close> is \<open>null\<close>.\<close>

record contact =
  firstName :: string
  lastName :: "string option"
  fullName :: string
  role :: string
  company :: string
  source :: string

text \<open>\<open>capitalize\<close>: the code units of the outcome.\<close>

definition capitalize :: "string \<Rightarrow> nat list" where
  "capitalize input =
     (if input = [] then [] else toUpperCase (take 1 input) @ map char_code (drop 1 input))"

text \<open>
  \<open>splitNameTokens\<close>: the pair \<open>(firstName, lastName)\<close>, \<open>None\<close> for \<open>null\<close>. A cleaned
  token holds the letters \<open>a\<close> to \<open>z\<close> only, so that its capitalized form is a string of the
  model.
\<close>

definition splitNameTokens :: "string list \<Rightarrow> string option \<times> string option" where
  "splitNameTokens tokens =
     (if tokens = [] then (None, None)
      else let cleanedTokens = filter_Boolean (map (filter is_lower) tokens)
           in (case cleanedTokens of
                 [] \<Rightarrow> (None, None)
               | t # ts \<Rightarrow>
                   (Some (string_of_units (capitalize t)),
                    if 1 < length cleanedTokens
                    then Some (string_of_units (capitalize (last cleanedTokens)))
                    else None)))"

text \<open>
  The slug: the last non-empty segment of the path of the parsed reference, or of the
  reference itself when it does not parse; the reference when there is none.
\<close>

definition slug_of :: "url_parser \<Rightarrow> string \<Rightarrow> string" where
  "slug_of URL trimmed =
     (case URL trimmed of
        Some link \<Rightarrow>
          (case pop (filter_Boolean (split_char (CHR ''/'') (pathname link))) of
             Some s \<Rightarrow> s | None \<Rightarrow> trimmed)
      | None \<Rightarrow>
          (case pop (filter_Boolean (split_char (CHR ''/'') trimmed)) of
             Some s \<Rightarrow> s | None \<Rightarrow> trimmed))"

text \<open>\<^verbatim>\<open>[a-z0-9-_\s]\<close>, the characters that the replacement keeps.\<close>

definition is_slug_char :: "char \<Rightarrow> bool" where
  "is_slug_char c =
     (is_lower c \<or> is_digit c \<or> c = CHR ''-'' \<or> c = CHR ''_'' \<or> is_space c)"

text \<open>\<^verbatim>\<open>[-_\s]\<close>\<close>

definition is_token_sep :: "char \<Rightarrow> bool" where
  "is_token_sep c = (c = CHR ''-'' \<or> c = CHR ''_'' \<or> is_space c)"

definition tokens_of :: "string \<Rightarrow> string list" where
  "tokens_of slug =
     filter_Boolean
       (split_runs is_token_sep False
          (map (\<lambda>c. if is_slug_char c then c else CHR '' '') (toLowerCase slug)))"

text \<open>\<open>ROLE_KEYWORDS.find(item => item.match.includes(word))\<close>: the label found.\<close>

definition find_role :: "string \<Rightarrow> string option" where
  "find_role word =
     (case find (\<lambda>item. word \<in> set (fst item)) ROLE_KEYWORDS of
        Some item \<Rightarrow> Some (snd item) | None \<Rightarrow> None)"

text \<open>\<^verbatim>\<open>/^\d+$/\<close>\<close>

definition re_digits :: "string \<Rightarrow> bool" where
  "re_digits s = (s \<noteq> [] \<and> list_all is_digit s)"

text \<open>
  The loop over the tokens. \<open>matchedRoles\<close> is a \<open>Set\<close>: the labels in the order in
  which they were first added.
\<close>

fun classify_tokens ::
  "string list \<Rightarrow> string list \<Rightarrow> string list \<Rightarrow> string list \<times> string list" where
  "classify_tokens matchedRoles nameTokens [] = (matchedRoles, nameTokens)"
| "classify_tokens matchedRoles nameTokens (token # tokens) =
     (case find_role (filter is_lower token) of
        Some label \<Rightarrow>
          classify_tokens
            (if label \<in> set matchedRoles then matchedRoles else matchedRoles @ [label])
            nameTokens tokens
      | None \<Rightarrow>
          if \<not> re_digits token then classify_tokens matchedRoles (nameTokens @ [token]) tokens
          else classify_tokens matchedRoles nameTokens tokens)"

text \<open>
  \<open>xs.sort(cmp)\<close>: the sort of ECMAScript is stable. An element goes before the first
  element of the sorted rest that the comparison does not put before it.
\<close>

fun sort_insert :: "('a \<Rightarrow> 'a \<Rightarrow> int) \<Rightarrow> 'a \<Rightarrow> 'a list \<Rightarrow> 'a list" where
  "sort_insert cmp x [] = [x]"
| "sort_insert cmp x (y # ys) =
     (if cmp x y \<le> 0 then x # y # ys else y # sort_insert cmp x ys)"

fun js_sort :: "('a \<Rightarrow> 'a \<Rightarrow> int) \<Rightarrow> 'a list \<Rightarrow> 'a list" where
  "js_sort cmp [] = []"
| "js_sort cmp (x # xs) = sort_insert cmp x (js_sort cmp xs)"

definition role_of :: "string list \<Rightarrow> string" where
  "role_of matchedRoles =
     (if 0 < length matchedRoles
      then join '' & '' (js_sort (\<lambda>a b. ROLE_PRIORITY b - ROLE_PRIORITY a) matchedRoles)
      else ''Decision Maker'')"

text \<open>\<open>extractContactFromLinkedIn\<close> on a reference that is a string.\<close>

definition extractContact :: "url_parser \<Rightarrow> string \<Rightarrow> string \<Rightarrow> contact list" where
  "extractContact URL u companyName =
     (if u = [] then []
      else let trimmed = trim u in
        if trimmed = [] then []
        else (case classify_tokens [] [] (tokens_of (slug_of URL trimmed)) of
                (matchedRoles, nameTokens) \<Rightarrow>
                  if length nameTokens = 0 then []
                  else (case splitNameTokens nameTokens of
                          (None, _) \<Rightarrow> []
                        | (Some first, lastN) \<Rightarrow>
                            if first = [] then []
                            else [\<lparr>firstName = first, lastName = lastN,
                                   fullName =
                                     join '' ''
                                       (filter_Boolean
                                          [first, case lastN of None \<Rightarrow> [] | Some l \<Rightarrow> l]),
                                   role = role_of matchedRoles,
                                   company = companyName, source = trimmed\<rparr>])))"

section \<open>Email synthesizer\<close>

text \<open>
  The canonical decompositions of the code units below 256: the code unit, its base
  letter and its combining mark. Every other code unit below 256 is its own
  decomposition; so is every code unit below 192, the first of the table.
\<close>

definition NFD_TABLE :: "(nat \<times> char \<times> nat) list" where
  "NFD_TABLE =
     [(192, CHR ''A'', 768), (193, CHR ''A'', 769), (194, CHR ''A'', 770), (195, CHR ''A'', 771),
      (196, CHR ''A'', 776), (197, CHR ''A'', 778), (199, CHR ''C'', 807), (200, CHR ''E'', 768),
      (201, CHR ''E'', 769), (202, CHR ''E'', 770), (203, CHR ''E'', 776), (204, CHR ''I'', 768),
      (205, CHR ''I'', 769), (206, CHR ''I'', 770), (207, CHR ''I'', 776), (209, CHR ''N'', 771),
      (210, CHR ''O'', 768), (211, CHR ''O'', 769), (212, CHR ''O'', 770), (213, CHR ''O'', 771),
      (214, CHR ''O'', 776), (217, CHR ''U'', 768), (218, CHR ''U'', 769), (219, CHR ''U'', 770),
      (220, CHR ''U'', 776), (221, CHR ''Y'', 769), (224, CHR ''a'', 768), (225, CHR ''a'', 769),
      (226, CHR ''a'', 770), (227, CHR ''a'', 771), (228, CHR ''a'', 776), (229, CHR ''a'', 778),
      (231, CHR ''c'', 807), (232, CHR ''e'', 768), (233, CHR ''e'', 769), (234, CHR ''e'', 770),
      (235, CHR ''e'', 776), (236, CHR ''i'', 768), (237, CHR ''i'', 769), (238, CHR ''i'', 770),
      (239, CHR ''i'', 776), (241, CHR ''n'', 771), (242, CHR ''o'', 768), (243, CHR ''o'', 769),
      (244, CHR ''o'', 770), (245, CHR ''o'', 771), (246, CHR ''o'', 776), (249, CHR ''u'', 768),
      (250, CHR ''u'', 769), (251, CHR ''u'', 770), (252, CHR ''u'', 776), (253, CHR ''y'', 769),
      (255, CHR ''y'', 776)]"

text \<open>The canonical decomposition of one code unit.\<close>

definition decompose :: "char \<Rightarrow> nat list" where
  "decompose c =
     (if char_code c < 192 then [char_code c]
      else (case map_of NFD_TABLE (char_code c) of
              Some (b, m) \<Rightarrow> [char_code b, m]
            | None \<Rightarrow> [char_code c]))"

text \<open>\<open>value.normalize("NFD")\<close>: the code units of the outcome.\<close>

definition normalize_NFD :: "string \<Rightarrow> nat list" where
  "normalize_NFD s = concat (map decompose s)"

text \<open>\<^verbatim>\<open>[\u0300-\u036f]\<close>, the combining marks.\<close>

definition is_combining_mark :: "nat \<Rightarrow> bool" where
  "is_combining_mark u = (768 \<le> u \<and> u \<le> 879)"

text \<open>\<^verbatim>\<open>[a-z]\<close> without regard to case, on a code unit.\<close>

definition is_letter_unit :: "nat \<Rightarrow> bool" where
  "is_letter_unit u = ((65 \<le> u \<and> u \<le> 90) \<or> (97 \<le> u \<and> u \<le> 122))"

text \<open>What the two replacements leave are letters of Basic Latin, a string of the model.\<close>

definition sanitizePart :: "string option \<Rightarrow> string" where
  "sanitizePart v =
     (case v of
        None \<Rightarrow> []
      | Some s \<Rightarrow>
          if s = [] then []
          else toLowerCase
                 (string_of_units
                    (filter is_letter_unit
                       (filter (\<lambda>u. \<not> is_combining_mark u) (normalize_NFD s)))))"

fun applyPattern :: "pattern \<Rightarrow> string \<Rightarrow> string \<Rightarrow> string option" where
  "applyPattern FirstLast first lst = (if lst = [] then None else Some (first @ ''.'' @ lst))"
| "applyPattern Firstlast first lst = (if lst = [] then None else Some (first @ lst))"
| "applyPattern FirstinitialLast first lst =
     (if lst = [] then None else Some (take 1 first @ ''.'' @ lst))"
| "applyPattern FirstLastinitial first lst =
     (if lst = [] then None else Some (first @ ''.'' @ take 1 lst))"
| "applyPattern First first lst = Some first"

definition buildEmail :: "contact \<Rightarrow> string \<Rightarrow> pattern \<Rightarrow> string option" where
  "buildEmail c domain p =
     (let first = sanitizePart (Some (firstName c));
          lst = sanitizePart (lastName c)
      in if first = [] then None
         else (case applyPattern p first lst of
                 None \<Rightarrow> None
               | Some localPart \<Rightarrow>
                   if localPart = [] then None else Some (localPart @ ''@'' @ domain)))"

section \<open>Confidence and deduplication\<close>

text \<open>\<open>!contact.lastName\<close>: \<open>null\<close> and the empty string are falsy.\<close>

definition no_lastName :: "contact \<Rightarrow> bool" where
  "no_lastName c = (case lastName c of None \<Rightarrow> True | Some l \<Rightarrow> l = [])"

definition chooseFallbackPattern :: "contact \<Rightarrow> pattern" where
  "chooseFallbackPattern c = (if no_lastName c then First else FALLBACK_PATTERNS ! 0)"

fun downgrade :: "confidence \<Rightarrow> confidence" where
  "downgrade High = Medium"
| "downgrade Medium = Low"
| "downgrade Low = Low"

text \<open>\<open>base = None\<close> is a missing tier, which \<open>base || "low"\<close> replaces.\<close>

definition adjustConfidence :: "confidence option \<Rightarrow> pattern \<Rightarrow> contact \<Rightarrow> confidence" where
  "adjustConfidence base p c =
     (let level = (case base of None \<Rightarrow> Low | Some b \<Rightarrow> b)
      in if no_lastName c \<or> p = First then downgrade level else level)"

record result =
  r_name :: string
  r_role :: string
  r_company :: string
  r_email :: string
  r_confidence :: confidence
  r_source :: string

definition signature :: "result \<Rightarrow> string" where
  "signature item = toLowerCase (r_company item) @ ''-'' @ toLowerCase (r_email item)"

fun dedup_loop :: "string set \<Rightarrow> result list \<Rightarrow> result list" where
  "dedup_loop seen [] = []"
| "dedup_loop seen (item # items) =
     (if signature item \<in> seen then dedup_loop seen items
      else item # dedup_loop (insert (signature item) seen) items)"

definition deduplicateResults :: "result list \<Rightarrow> result list" where
  "deduplicateResults results = dedup_loop {} results"

section \<open>The request handler\<close>

text \<open>
  The body of the request after \<open>request.json()\<close>. A number is kept as an integer: the
  program only asks whether it is zero. \<open>undefined\<close> is the \<open>None\<close> of a lookup.
\<close>

datatype json =
    JNull
  | JBool bool
  | JNum int
  | JStr string
  | JArr "json list"
  | JObj "(string \<times> json) list"

fun truthy :: "json \<Rightarrow> bool" where
  "truthy JNull = False"
| "truthy (JBool b) = b"
| "truthy (JNum n) = (n \<noteq> 0)"
| "truthy (JStr s) = (s \<noteq> [])"
| "truthy (JArr xs) = True"
| "truthy (JObj kvs) = True"

text \<open>
  \<open>entry?.key\<close> for the keys the handler reads: a property of an object, \<open>undefined\<close>
  on every other value. \<open>JSON.parse\<close> keeps the last of repeated keys.
\<close>

fun get_prop :: "json \<Rightarrow> string \<Rightarrow> json option" where
  "get_prop (JObj kvs) k = map_of (rev kvs) k"
| "get_prop j k = None"

datatype error = TypeError

text \<open>
  \<open>(entry?.key || "").trim()\<close>: a truthy value that is no string has no \<open>trim\<close>, and the
  call throws.
\<close>

definition trimmed_field :: "json \<Rightarrow> string \<Rightarrow> error + string" where
  "trimmed_field entry k =
     (case get_prop entry k of
        None \<Rightarrow> Inr (trim [])
      | Some j \<Rightarrow>
          if \<not> truthy j then Inr (trim [])
          else (case j of JStr s \<Rightarrow> Inr (trim s) | _ \<Rightarrow> Inl TypeError))"

definition profiles_of :: "json \<Rightarrow> json list" where
  "profiles_of entry =
     (case get_prop entry ''linkedinProfiles'' of
        Some (JArr xs) \<Rightarrow> filter truthy xs
      | _ \<Rightarrow> [])"

text \<open>\<open>extractContactFromLinkedIn\<close>: a reference that is no string gives no person.\<close>

fun extractContactFromLinkedIn :: "url_parser \<Rightarrow> json \<Rightarrow> string \<Rightarrow> contact list" where
  "extractContactFromLinkedIn URL (JStr u) companyName = extractContact URL u companyName"
| "extractContactFromLinkedIn URL j companyName = []"

text \<open>\<open>patternDiscovery.pattern || chooseFallbackPattern(contact)\<close>\<close>

definition emailPattern_of :: "discovery \<Rightarrow> contact \<Rightarrow> pattern" where
  "emailPattern_of patternDiscovery c =
     (case d_pattern patternDiscovery of Some p \<Rightarrow> p | None \<Rightarrow> chooseFallbackPattern c)"

text \<open>The body of the loop over the contacts: the row pushed, if any.\<close>

definition emit :: "discovery \<Rightarrow> string \<Rightarrow> string \<Rightarrow> contact \<Rightarrow> result option" where
  "emit patternDiscovery domain companyName c =
     (let emailPattern = emailPattern_of patternDiscovery c
      in (case buildEmail c domain emailPattern of
            None \<Rightarrow> None
          | Some email \<Rightarrow>
              Some \<lparr>r_name = fullName c, r_role = role c,
                    r_company =
                      (if companyName \<noteq> [] then companyName
                       else if company c \<noteq> [] then company c else ''Unknown company''),
                    r_email = email,
                    r_confidence =
                      adjustConfidence (Some (d_confidence patternDiscovery)) emailPattern c,
                    r_source = join '' | '' (filter_Boolean [source c, d_source patternDiscovery])\<rparr>))"

text \<open>
  One turn of the loop over the entries: the rows pushed, or the exception thrown, and the
  network after it.
\<close>

definition processEntry ::
  "url_parser \<Rightarrow> 'w fetcher \<Rightarrow> 'w \<Rightarrow> json \<Rightarrow> (error + result list) \<times> 'w" where
  "processEntry URL fetchHtml w entry =
     (case trimmed_field entry ''company'' of
        Inl e \<Rightarrow> (Inl e, w)
      | Inr companyName \<Rightarrow>
          (case trimmed_field entry ''website'' of
             Inl e \<Rightarrow> (Inl e, w)
           | Inr website \<Rightarrow>
               (let linkedinProfiles = profiles_of entry
                in (case deriveDomain URL website of
                      None \<Rightarrow> (Inr [], w)
                    | Some domain \<Rightarrow>
                        if domain = [] \<or> toLowerCase domain \<in> set FREE_PROVIDERS
                        then (Inr [], w)
                        else (case discoverPattern fetchHtml w domain of
                                (patternDiscovery, w') \<Rightarrow>
                                  (Inr (List.map_filter
                                          (emit patternDiscovery domain companyName)
                                          (concat
                                             (map (\<lambda>profile.
                                                     extractContactFromLinkedIn URL profile
                                                       companyName)
                                                linkedinProfiles))),
                                   w'))))))"

fun processEntries ::
  "url_parser \<Rightarrow> 'w fetcher \<Rightarrow> 'w \<Rightarrow> json list \<Rightarrow> (error + result list) \<times> 'w" where
  "processEntries URL fetchHtml w [] = (Inr [], w)"
| "processEntries URL fetchHtml w (entry # entries) =
     (case processEntry URL fetchHtml w entry of
        (Inl e, w') \<Rightarrow> (Inl e, w')
      | (Inr rs, w') \<Rightarrow>
          (case processEntries URL fetchHtml w' entries of
             (Inl e, w'') \<Rightarrow> (Inl e, w'')
           | (Inr rs', w'') \<Rightarrow> (Inr (rs @ rs'), w'')))"

text \<open>
  The answers of \<open>POST\<close>: the result list with status 200, the client error with status
  400 and an empty result list, the server error with status 500.
\<close>

datatype response = Results "result list" | NoEntries | ServerError

text \<open>\<open>body = None\<close>: \<open>request.json()\<close> has thrown.\<close>

definition POST :: "url_parser \<Rightarrow> 'w fetcher \<Rightarrow> 'w \<Rightarrow> json option \<Rightarrow> response \<times> 'w" where
  "POST URL fetchHtml w body =
     (case body of
        None \<Rightarrow> (ServerError, w)
      | Some JNull \<Rightarrow> (ServerError, w)
      | Some b \<Rightarrow>
          (case get_prop b ''entries'' of
             Some (JArr entries) \<Rightarrow>
               if length entries = 0 then (NoEntries, w)
               else (case processEntries URL fetchHtml w entries of
                       (Inl e, w') \<Rightarrow> (ServerError, w')
                     | (Inr results, w') \<Rightarrow> (Results (deduplicateResults results), w'))
           | _ \<Rightarrow> (NoEntries, w)))"

section \<open>Notions of the specification\<close>

text \<open>A word: a non-empty run of the letters \<open>a\<close> to \<open>z\<close>.\<close>

definition word :: "string \<Rightarrow> bool" where
  "word s = (s \<noteq> [] \<and> (\<forall>c\<in>set s. is_lower c))"

text \<open>The local part that a pattern makes of a sanitized first and last name.\<close>

definition local_template :: "pattern \<Rightarrow> string \<Rightarrow> string \<Rightarrow> string" where
  "local_template p f l =
     (case p of
        FirstLast \<Rightarrow> f @ ''.'' @ l
      | Firstlast \<Rightarrow> f @ l
      | FirstinitialLast \<Rightarrow> take 1 f @ ''.'' @ l
      | FirstLastinitial \<Rightarrow> f @ ''.'' @ take 1 l
      | First \<Rightarrow> f)"

text \<open>
  The letter of a character: the letter \<open>a\<close> to \<open>z\<close> that the character is, in either
  case, or of which it is an accented form; nothing for every other character.
\<close>

definition base_letter :: "char \<Rightarrow> string" where
  "base_letter c =
     (if is_alpha c then [lower_char c]
      else (case map_of NFD_TABLE (char_code c) of
              Some (b, m) \<Rightarrow> [lower_char b]
            | None \<Rightarrow> []))"

text \<open>A person of company Acme with the given names, for the instances.\<close>

definition person :: "string \<Rightarrow> string option \<Rightarrow> contact" where
  "person f l =
     \<lparr>firstName = f, lastName = l,
      fullName = join '' '' (filter_Boolean [f, case l of None \<Rightarrow> [] | Some x \<Rightarrow> x]),
      role = ''Decision Maker'', company = ''Acme'', source = ''jordan-lee''\<rparr>"

text \<open>
  No candidate page gives a classifiable address: whatever the state of the network, the
  fetch of a candidate fails or the addresses of the page on the domain have no pattern.
\<close>

definition nothing_classifiable :: "'w fetcher \<Rightarrow> string \<Rightarrow> bool" where
  "nothing_classifiable fetchHtml domain =
     (\<forall>w. \<forall>u\<in>set (buildDiscoveryUrls domain).
        case fst (fetchHtml w u) of
          None \<Rightarrow> True
        | Some html \<Rightarrow>
            list_all (\<lambda>email. inferPattern (local_of email) = None) (businessEmails html domain))"

text \<open>A page whose two addresses on the domain have no pattern.\<close>

definition page_unclassifiable :: string where
  "page_unclassifiable = ''Write to sales-team@acmetech.io or j_doe@acmetech.io.''"

text \<open>The patterns of the addresses that have one, in the order of the addresses.\<close>

definition classified :: "string list \<Rightarrow> pattern list" where
  "classified emails = List.map_filter (\<lambda>email. inferPattern (local_of email)) emails"

text \<open>The total of a pattern: its weight, once for every address that has the pattern.\<close>

definition total :: "pattern list \<Rightarrow> pattern \<Rightarrow> int" where
  "total ps q = PATTERN_PRIORITY q * int (count_list ps q)"

text \<open>A page with two addresses on \<open>acme.io\<close> and one elsewhere.\<close>

definition page_two_addresses :: string where
  "page_two_addresses = ''Ask jordan.lee@acme.io, or Sam.Ray@acme.io. Press: press@other.org''"

text \<open>One step of the first loop of \<open>selectPattern\<close> on a classified address.\<close>

definition add_score :: "(pattern \<times> int) list \<Rightarrow> pattern \<Rightarrow> (pattern \<times> int) list" where
  "add_score m p =
     map_set m p ((case map_of m p of None \<Rightarrow> 0 | Some s \<Rightarrow> s) + PATTERN_PRIORITY p)"

text \<open>\<open>patternScores.get(q) || 0\<close>\<close>

definition score_of :: "(pattern \<times> int) list \<Rightarrow> pattern \<Rightarrow> int" where
  "score_of m q = (case map_of m q of None \<Rightarrow> 0 | Some s \<Rightarrow> s)"

text \<open>Two rows have the same company and the same address, case ignored.\<close>

definition same_contact :: "result \<Rightarrow> result \<Rightarrow> bool" where
  "same_contact a b =
     (toLowerCase (r_company a) = toLowerCase (r_company b)
      \<and> toLowerCase (r_email a) = toLowerCase (r_email b))"

text \<open>
  An emitted row: its address was synthesized by \<open>buildEmail\<close> for a host name, which
  has no \<open>@\<close>.
\<close>

definition synthesized :: "result \<Rightarrow> bool" where
  "synthesized r =
     (\<exists>c domain p. CHR ''@'' \<notin> set domain \<and> buildEmail c domain p = Some (r_email r))"

text \<open>Rows for the instances.\<close>

definition row :: "string \<Rightarrow> string \<Rightarrow> string \<Rightarrow> result" where
  "row n c e =
     \<lparr>r_name = n, r_role = ''Decision Maker'', r_company = c, r_email = e,
      r_confidence = Medium, r_source = ''jordan-lee | https://acme.io''\<rparr>"

text \<open>
  What \<open>new URL\<close> answers on the references of the instances, as the URL standard has
  it; every other string is taken as unparsable.
\<close>

definition URL_examples :: url_parser where
  "URL_examples =
     map_of
       [(''https://acme.io'', \<lparr>hostname = ''acme.io'', pathname = ''/''\<rparr>),
        (''https://www.acme.io/x'', \<lparr>hostname = ''www.acme.io'', pathname = ''/x''\<rparr>),
        (''http://acme.io'', \<lparr>hostname = ''acme.io'', pathname = ''/''\<rparr>),
        (''https://WWW.Mail.com'', \<lparr>hostname = ''www.mail.com'', pathname = ''/''\<rparr>),
        (''https://www.linkedin.com/in/jordan-lee-founder-ceo/'',
         \<lparr>hostname = ''www.linkedin.com'', pathname = ''/in/jordan-lee-founder-ceo/''\<rparr>)]"

text \<open>The labels matched in a profile reference, in the order of their first match.\<close>

definition matched_roles :: "url_parser \<Rightarrow> string \<Rightarrow> string list" where
  "matched_roles URL u = fst (classify_tokens [] [] (tokens_of (slug_of URL (trim u))))"

text \<open>
  A string starts with a URL scheme: a letter, then letters, digits, \<open>+\<close>, \<open>-\<close> or
  \<open>.\<close>, then \<open>://\<close>.
\<close>

definition is_scheme_char :: "char \<Rightarrow> bool" where
  "is_scheme_char c = (is_alpha c \<or> is_digit c \<or> c \<in> set ''+-.'')"

definition starts_with_scheme :: "string \<Rightarrow> bool" where
  "starts_with_scheme s =
     (case s of
        [] \<Rightarrow> False
      | c # r \<Rightarrow> is_alpha c \<and> prefix ''://'' (dropWhile is_scheme_char r))"

text \<open>
  The string that the specification hands to the parser: the trimmed input, with
  \<open>https://\<close> before it exactly when it does not start with a URL scheme.
\<close>

definition scheme_prefixed :: "string \<Rightarrow> string" where
  "scheme_prefixed v = (if starts_with_scheme v then v else ''https://'' @ v)"

text \<open>A host name without one leading \<open>www.\<close> label.\<close>

definition without_www :: "string \<Rightarrow> string" where
  "without_www h = (if prefix ''www.'' h then drop 4 h else h)"

text \<open>The domain of a parse: nothing when the parse fails, else the host name in lower
  case without one leading \<open>www.\<close> label.\<close>

definition domain_of_parse :: "url option \<Rightarrow> string option" where
  "domain_of_parse r =
     (case r of None \<Rightarrow> None | Some l \<Rightarrow> Some (without_www (toLowerCase (hostname l))))"

text \<open>A property of an entry as a value, \<open>null\<close> when it is missing.\<close>

definition field :: "json \<Rightarrow> string \<Rightarrow> json" where
  "field entry k = (case get_prop entry k of Some j \<Rightarrow> j | None \<Rightarrow> JNull)"

text \<open>The entry with its company and website, and with the given list of profiles.\<close>

definition entry_with :: "json \<Rightarrow> json list \<Rightarrow> json" where
  "entry_with entry ps =
     JObj [(''company'', field entry ''company''), (''website'', field entry ''website''),
           (''linkedinProfiles'', JArr ps)]"

text \<open>The body of a request with the given entries.\<close>

definition body_of :: "json list \<Rightarrow> json option" where
  "body_of entries = Some (JObj [(''entries'', JArr entries)])"

text \<open>Entries and a network without pages, for the instances.\<close>

definition entry_example :: "string \<Rightarrow> json \<Rightarrow> json" where
  "entry_example website profiles =
     JObj [(''company'', JStr ''Acme''), (''website'', JStr website),
           (''linkedinProfiles'', profiles)]"

definition no_pages :: "unit fetcher" where
  "no_pages w u = (None, w)"

section \<open>Classification of a local part\<close>

lemma not_lower_dot: "\<not> is_lower CHR ''.''"
  by (simp add: is_lower_def char_code_def)

lemma re_first_last_iff:
  "re_first_last s \<longleftrightarrow> (\<exists>u v. word u \<and> word v \<and> s = u @ ''.'' @ v)"
proof
  assume a: "re_first_last s"
  let ?u = "takeWhile is_lower s"
  from a obtain c v where d: "dropWhile is_lower s = c # v"
    by (cases "dropWhile is_lower s") (auto simp: re_first_last_def)
  with a have c: "c = CHR ''.''" and v: "v \<noteq> []" "list_all is_lower v" and u: "?u \<noteq> []"
    by (auto simp: re_first_last_def)
  have "s = ?u @ ''.'' @ v"
    using takeWhile_dropWhile_id[of is_lower s] d c by simp
  moreover have "word ?u" using u by (auto simp: word_def dest: set_takeWhileD)
  moreover have "word v" using v by (simp add: word_def list_all_iff)
  ultimately show "\<exists>u v. word u \<and> word v \<and> s = u @ ''.'' @ v" by blast
next
  assume "\<exists>u v. word u \<and> word v \<and> s = u @ ''.'' @ v"
  then obtain u v where "word u" "word v" "s = u @ CHR ''.'' # v" by auto
  then show "re_first_last s"
    by (simp add: re_first_last_def word_def not_lower_dot list_all_iff)
qed

lemma re_first_lastinitial_iff:
  "re_first_lastinitial s \<longleftrightarrow> (\<exists>u z. word u \<and> is_lower z \<and> s = u @ ''.'' @ [z])"
proof
  assume a: "re_first_lastinitial s"
  let ?u = "takeWhile is_lower s"
  from a obtain d z where dz: "dropWhile is_lower s = [d, z]"
    by (auto simp: re_first_lastinitial_def split: list.splits)
  with a have c: "d = CHR ''.''" "is_lower z" and u: "?u \<noteq> []"
    by (auto simp: re_first_lastinitial_def)
  have "s = ?u @ ''.'' @ [z]"
    using takeWhile_dropWhile_id[of is_lower s] dz c by simp
  moreover have "word ?u" using u by (auto simp: word_def dest: set_takeWhileD)
  ultimately show "\<exists>u z. word u \<and> is_lower z \<and> s = u @ ''.'' @ [z]" using c by blast
next
  assume "\<exists>u z. word u \<and> is_lower z \<and> s = u @ ''.'' @ [z]"
  then obtain u z where "word u" "is_lower z" "s = u @ CHR ''.'' # [z]" by auto
  then show "re_first_lastinitial s"
    by (simp add: re_first_lastinitial_def word_def not_lower_dot)
qed

lemma re_firstinitial_last_iff:
  "re_firstinitial_last s \<longleftrightarrow> (\<exists>a v. is_lower a \<and> word v \<and> s = a # ''.'' @ v)"
  by (auto simp: re_firstinitial_last_def word_def list_all_iff split: list.splits)

lemma re_first_iff: "re_first s \<longleftrightarrow> word s"
  by (simp add: re_first_def word_def list_all_iff)

lemma re_firstlast_iff:
  "re_firstlast s \<and> 4 \<le> length (filter is_alpha s) \<longleftrightarrow> word s \<and> 4 \<le> length s"
proof -
  have "list_all is_lower s \<Longrightarrow> filter is_alpha s = s"
    by (induction s) (auto simp: is_alpha_def)
  then show ?thesis
    by (auto simp: re_firstlast_def word_def list_all_iff)
qed

lemma inferPattern_chain:
  "inferPattern s =
     (if s = [] then None
      else if re_first_last s then Some FirstLast
      else if re_firstlast s \<and> 4 \<le> length (filter is_alpha s) then Some Firstlast
      else if re_firstinitial_last s then Some FirstinitialLast
      else if re_first_lastinitial s then Some FirstLastinitial
      else if re_first s then Some First
      else None)"
  by (simp add: inferPattern_def Let_def)

text \<open>
  Claim C3. A local part is classified by five rules tried in this order, the first that
  matches deciding: word.word is \<open>first.last\<close>; a word of at least four letters is
  \<open>firstlast\<close>; letter.word is \<open>firstinitial.last\<close>; word.letter is
  \<open>first.lastinitial\<close>; a word that is left, which has one to three letters, is
  \<open>first\<close>. Every other local part has no pattern.
\<close>

theorem inferPattern_rules:
  "inferPattern s =
     (if \<exists>u v. word u \<and> word v \<and> s = u @ ''.'' @ v then Some FirstLast
      else if word s \<and> 4 \<le> length s then Some Firstlast
      else if \<exists>a v. is_lower a \<and> word v \<and> s = a # ''.'' @ v then Some FirstinitialLast
      else if \<exists>u z. word u \<and> is_lower z \<and> s = u @ ''.'' @ [z] then Some FirstLastinitial
      else if word s \<and> 1 \<le> length s \<and> length s \<le> 3 then Some First
      else None)"
proof -
  have e: "s = [] \<Longrightarrow> \<not> word s" by (simp add: word_def)
  have w: "word s \<Longrightarrow> \<not> (4 \<le> length s) \<Longrightarrow> 1 \<le> length s \<and> length s \<le> 3"
    by (cases s) (auto simp: word_def)
  show ?thesis
    unfolding inferPattern_chain re_first_last_iff re_firstlast_iff re_firstinitial_last_iff
      re_first_lastinitial_iff re_first_iff
    using e w by auto
qed

theorem inferPattern_rules_witness:
  "word ''jordan'' \<and> word ''lee'' \<and> inferPattern ''jordan.lee'' = Some FirstLast"
proof -
  have l: "is_lower c" if "c \<in> set ''jordanlee''" for c
    using that by (auto simp: is_lower_def char_code_def)
  have w: "word ''jordan''" "word ''lee''" by (simp_all add: word_def l)
  then have 1: "\<exists>u v. word u \<and> word v \<and> ''jordan.lee'' = u @ ''.'' @ v"
    by (intro exI[of _ "''jordan''"] exI[of _ "''lee''"]) simp
  from inferPattern_rules [of "''jordan.lee''"]
  have "inferPattern ''jordan.lee'' = Some FirstLast" by (simp only: 1 if_True)
  with w show ?thesis by simp
qed

text \<open>
  The first rule takes every local part of the third and of the fourth: these two
  patterns are never inferred.
\<close>

lemma inferPattern_three_values:
  "inferPattern s \<in> {None, Some FirstLast, Some Firstlast, Some First}"
proof -
  have "re_firstinitial_last s \<Longrightarrow> re_first_last s"
    unfolding re_firstinitial_last_iff re_first_last_iff
  proof (elim exE conjE)
    fix a v assume "is_lower a" "word v" "s = a # ''.'' @ v"
    then have "word [a] \<and> word v \<and> s = [a] @ ''.'' @ v" by (simp add: word_def)
    then show "\<exists>u v. word u \<and> word v \<and> s = u @ ''.'' @ v" by blast
  qed
  moreover have "re_first_lastinitial s \<Longrightarrow> re_first_last s"
    unfolding re_first_lastinitial_iff re_first_last_iff
  proof (elim exE conjE)
    fix u z assume "word u" "is_lower z" "s = u @ ''.'' @ [z]"
    then have "word u \<and> word [z] \<and> s = u @ ''.'' @ [z]" by (simp add: word_def)
    then show "\<exists>u v. word u \<and> word v \<and> s = u @ ''.'' @ v" by blast
  qed
  ultimately show ?thesis by (auto simp: inferPattern_chain)
qed

section \<open>Email synthesis\<close>

lemma char_code_less: "char_code c < 256"
proof -
  have "(of_char c :: nat) mod 256 < 256" by simp
  then show ?thesis by (simp only: of_char_mod_256 char_code_def)
qed

lemma char_of_char_code: "char_of (char_code c) = c"
  by (simp add: char_code_def)

text \<open>
  Where the model turns code units into a string, they are below 256: a cleaned token
  holds the letters \<open>a\<close> to \<open>z\<close>, and the replacements of \<open>sanitizePart\<close> leave letters of
  Basic Latin.
\<close>

lemma cleaned_tokens_lower:
  "list_all (list_all is_lower) (filter_Boolean (map (filter is_lower) tokens))"
  by (auto simp: list_all_iff filter_Boolean_def)

lemma capitalize_units:
  "list_all is_lower t \<Longrightarrow> list_all (\<lambda>u. u < 256) (capitalize t)"
proof (cases t)
  case Nil
  then show ?thesis by (simp add: capitalize_def)
next
  case (Cons c cs)
  assume "list_all is_lower t"
  with Cons have l: "is_lower c" by simp
  have "char_code c - 32 < 256" using char_code_less [of c] by simp
  with l Cons show ?thesis
    by (simp add: capitalize_def toUpperCase_def upper_units_def list_all_iff char_code_less)
qed

lemma letter_units: "list_all (\<lambda>u. u < 256) (filter is_letter_unit us)"
  by (auto simp: list_all_iff is_letter_unit_def)

lemma NFD_TABLE_entries:
  "list_all (\<lambda>(k, b, m). 192 \<le> k \<and> is_alpha b \<and> is_combining_mark m) NFD_TABLE"
  by code_simp

lemma NFD_TABLE_lookup:
  assumes "map_of NFD_TABLE k = Some (b, m)"
  shows "192 \<le> k \<and> is_alpha b \<and> is_combining_mark m"
proof -
  from assms have "(k, b, m) \<in> set NFD_TABLE" by (rule map_of_SomeD)
  with NFD_TABLE_entries show ?thesis by (auto simp: list_all_iff)
qed

lemma is_letter_unit_char: "is_letter_unit (char_code c) \<longleftrightarrow> is_alpha c"
  by (auto simp: is_letter_unit_def is_alpha_def is_lower_def is_upper_def)

lemma not_mark_char: "\<not> is_combining_mark (char_code c)"
  using char_code_less [of c] by (simp add: is_combining_mark_def)

lemma alpha_below_192: "is_alpha c \<Longrightarrow> char_code c < 192"
  by (auto simp: is_alpha_def is_lower_def is_upper_def)

lemma decompose_table:
  "decompose c
     = (case map_of NFD_TABLE (char_code c) of
          Some (b, m) \<Rightarrow> [char_code b, m]
        | None \<Rightarrow> [char_code c])"
proof (cases "map_of NFD_TABLE (char_code c)")
  case None
  then show ?thesis by (simp add: decompose_def)
next
  case (Some bm)
  obtain b m where bm: "bm = (b, m)" by (cases bm)
  from Some bm have "192 \<le> char_code c \<and> is_alpha b \<and> is_combining_mark m"
    by (intro NFD_TABLE_lookup) simp
  then show ?thesis by (simp add: decompose_def)
qed

lemma sanitize_char:
  "map lower_char
     (map char_of
        (filter is_letter_unit (filter (\<lambda>u. \<not> is_combining_mark u) (decompose c))))
   = base_letter c"
proof (cases "map_of NFD_TABLE (char_code c)")
  case None
  then show ?thesis
    by (simp add: decompose_table base_letter_def not_mark_char is_letter_unit_char
          char_of_char_code)
next
  case (Some bm)
  obtain b m where bm: "bm = (b, m)" by (cases bm)
  from Some bm have "192 \<le> char_code c \<and> is_alpha b \<and> is_combining_mark m"
    by (intro NFD_TABLE_lookup) simp
  moreover from this have "\<not> is_alpha c" using alpha_below_192 [of c] by auto
  ultimately show ?thesis
    using Some bm
    by (simp add: decompose_table base_letter_def not_mark_char is_letter_unit_char
          char_of_char_code)
qed

lemma sanitize_units:
  "toLowerCase
     (string_of_units
        (filter is_letter_unit (filter (\<lambda>u. \<not> is_combining_mark u) (normalize_NFD n))))
   = concat (map base_letter n)"
  by (induction n)
     (simp_all add: toLowerCase_def string_of_units_def normalize_NFD_def sanitize_char
        del: map_map filter_filter)

lemma sanitizePart_letters: "sanitizePart (Some n) = concat (map base_letter n)"
  using sanitize_units [of n] by (simp add: sanitizePart_def)

lemma applyPattern_eq:
  "f \<noteq> [] \<Longrightarrow> applyPattern p f l =
     (if p \<noteq> First \<and> l = [] then None else Some (local_template p f l))"
  by (cases p) (simp_all add: local_template_def)

lemma local_template_nonempty: "f \<noteq> [] \<Longrightarrow> local_template p f l \<noteq> []"
  by (cases p) (simp_all add: local_template_def)

lemma buildEmail_eq:
  "buildEmail c domain p =
     (if sanitizePart (Some (firstName c)) = [] then None
      else if p \<noteq> First \<and> sanitizePart (lastName c) = [] then None
      else Some (local_template p (sanitizePart (Some (firstName c))) (sanitizePart (lastName c))
                 @ ''@'' @ domain))"
  by (simp add: buildEmail_def Let_def applyPattern_eq local_template_nonempty)

text \<open>
  Claim C7. An address is synthesized exactly when the sanitized first name is not empty
  and, for the four patterns of two parts, the sanitized last name is not empty either;
  the address is then the local part of the pattern, \<open>@\<close> and the domain. The sanitized
  name is the canonical decomposition of the name without the combining marks and without
  what is no letter \<open>a\<close> to \<open>z\<close> in either case, in lower case: every character gives its
  letter, an accented letter its base letter, and every other character nothing. Jordan
  Lee at acme.io is \<open>jordan.lee@acme.io\<close> under \<open>first.last\<close> and \<open>j.lee@acme.io\<close> under
  \<open>firstinitial.last\<close>; Jose with an acute accent, U+00E9, is \<open>jose\<close>; a person without a last
  name has no address under a pattern of two parts.
\<close>

theorem buildEmail_synthesis:
  "buildEmail c domain p =
     (if sanitizePart (Some (firstName c)) = [] then None
      else if p \<noteq> First \<and> sanitizePart (lastName c) = [] then None
      else Some (local_template p (sanitizePart (Some (firstName c))) (sanitizePart (lastName c))
                 @ ''@'' @ domain))
   \<and> sanitizePart (Some n)
       = toLowerCase
           (string_of_units
              (filter is_letter_unit
                 (filter (\<lambda>u. \<not> is_combining_mark u) (normalize_NFD n))))
   \<and> sanitizePart (Some n) = concat (map base_letter n)
   \<and> sanitizePart None = []
   \<and> buildEmail (person ''Jordan'' (Some ''Lee'')) ''acme.io'' FirstLast
       = Some ''jordan.lee@acme.io''
   \<and> buildEmail (person ''Jordan'' (Some ''Lee'')) ''acme.io'' FirstinitialLast
       = Some ''j.lee@acme.io''
   \<and> buildEmail (person (''Jos'' @ [CHR 0xE9]) (Some ''Lee'')) ''acme.io'' FirstLast
       = Some ''jose.lee@acme.io''
   \<and> buildEmail (person [CHR 0xC9] (Some ''Lee'')) ''acme.io'' FirstinitialLast
       = Some ''e.lee@acme.io''
   \<and> (lastName c = None \<and> p \<noteq> First \<longrightarrow> buildEmail c domain p = None)"
proof -
  have 1: "sanitizePart (Some n)
       = toLowerCase
           (string_of_units
              (filter is_letter_unit
                 (filter (\<lambda>u. \<not> is_combining_mark u) (normalize_NFD n))))"
    by (simp only: sanitizePart_letters sanitize_units)
  have 2: "sanitizePart (Some n) = concat (map base_letter n)"
    by (rule sanitizePart_letters)
  have 3: "sanitizePart None = []" by (simp add: sanitizePart_def)
  have 4: "buildEmail (person ''Jordan'' (Some ''Lee'')) ''acme.io'' FirstLast
             = Some ''jordan.lee@acme.io''"
    by code_simp
  have 5: "buildEmail (person ''Jordan'' (Some ''Lee'')) ''acme.io'' FirstinitialLast
             = Some ''j.lee@acme.io''"
    by code_simp
  have 6: "buildEmail (person (''Jos'' @ [CHR 0xE9]) (Some ''Lee'')) ''acme.io'' FirstLast
             = Some ''jose.lee@acme.io''"
    by code_simp
  have 7: "buildEmail (person [CHR 0xC9] (Some ''Lee'')) ''acme.io'' FirstinitialLast
             = Some ''e.lee@acme.io''"
    by code_simp
  have 8: "lastName c = None \<and> p \<noteq> First \<longrightarrow> buildEmail c domain p = None"
    using buildEmail_eq [of c domain p] 3 by simp
  show ?thesis
    by (rule conjI [OF buildEmail_eq conjI [OF 1 conjI [OF 2 conjI [OF 3 conjI [OF 4
          conjI [OF 5 conjI [OF 6 conjI [OF 7 8]]]]]]]])
qed

theorem buildEmail_synthesis_witness:
  "lastName (person ''Jordan'' None) = None \<and> FirstLast \<noteq> First
   \<and> buildEmail (person ''Jordan'' None) ''acme.io'' FirstLast = None"
  using buildEmail_synthesis [of "person ''Jordan'' None" "''acme.io''" FirstLast]
  by (simp add: person_def)

section \<open>Fallback pattern and confidence\<close>

lemma chooseFallbackPattern_eq:
  "chooseFallbackPattern c = (if no_lastName c then First else FirstLast)"
  by (simp add: chooseFallbackPattern_def FALLBACK_PATTERNS_def)

lemma downgrade_eq:
  "downgrade t = (case t of High \<Rightarrow> Medium | Medium \<Rightarrow> Low | Low \<Rightarrow> Low)"
  by (cases t) simp_all

text \<open>
  Claim C8. When discovery gave no pattern, the pattern applied to a contact is \<open>first\<close>
  if the contact has no last name and \<open>first.last\<close> otherwise. The confidence of an
  emitted row is the tier of the discovery, taken down one step (high to medium, medium
  to low, low to low) when the contact has no last name or the applied pattern is
  \<open>first\<close>, and left as it is otherwise.
\<close>

theorem fallback_and_confidence:
  assumes "emit pd domain cn c = Some r"
  shows "chooseFallbackPattern c = (if no_lastName c then First else FirstLast)
    \<and> (d_pattern pd = None \<longrightarrow>
         emailPattern_of pd c = (if no_lastName c then First else FirstLast))
    \<and> buildEmail c domain (emailPattern_of pd c) = Some (r_email r)
    \<and> (no_lastName c \<or> emailPattern_of pd c = First \<longrightarrow>
         r_confidence r
           = (case d_confidence pd of High \<Rightarrow> Medium | Medium \<Rightarrow> Low | Low \<Rightarrow> Low))
    \<and> (\<not> no_lastName c \<and> emailPattern_of pd c \<noteq> First \<longrightarrow>
         r_confidence r = d_confidence pd)"
  using assms chooseFallbackPattern_eq [of c]
  by (cases "d_pattern pd")
     (auto simp: emit_def emailPattern_of_def Let_def adjustConfidence_def downgrade_eq
           split: option.splits)

theorem fallback_and_confidence_witness:
  "emit \<lparr>d_pattern = None, d_confidence = Medium, d_source = ''https://example.com''\<rparr>
      ''example.com'' ''Acme'' (person ''Jordan'' None)
     = Some \<lparr>r_name = ''Jordan'', r_role = ''Decision Maker'', r_company = ''Acme'',
             r_email = ''jordan@example.com'', r_confidence = Low,
             r_source = ''jordan-lee | https://example.com''\<rparr>
   \<and> no_lastName (person ''Jordan'' None)
   \<and> buildEmail (person ''Jordan'' None) ''example.com''
        (emailPattern_of
           \<lparr>d_pattern = None, d_confidence = Medium, d_source = ''https://example.com''\<rparr>
           (person ''Jordan'' None))
       = Some ''jordan@example.com''
   \<and> emit \<lparr>d_pattern = Some Firstlast, d_confidence = High, d_source = ''https://acme.io''\<rparr>
      ''acme.io'' ''Acme'' (person ''Jordan'' (Some ''Lee''))
     = Some \<lparr>r_name = ''Jordan Lee'', r_role = ''Decision Maker'', r_company = ''Acme'',
             r_email = ''jordanlee@acme.io'', r_confidence = High,
             r_source = ''jordan-lee | https://acme.io''\<rparr>
   \<and> \<not> no_lastName (person ''Jordan'' (Some ''Lee''))"
proof -
  let ?pd = "\<lparr>d_pattern = None, d_confidence = Medium, d_source = ''https://example.com''\<rparr>"
  let ?r = "\<lparr>r_name = ''Jordan'', r_role = ''Decision Maker'', r_company = ''Acme'',
             r_email = ''jordan@example.com'', r_confidence = Low,
             r_source = ''jordan-lee | https://example.com''\<rparr>"
  have e: "emit ?pd ''example.com'' ''Acme'' (person ''Jordan'' None) = Some ?r"
    by code_simp
  have n: "no_lastName (person ''Jordan'' None)" by (simp add: no_lastName_def person_def)
  from fallback_and_confidence [OF e]
  have "buildEmail (person ''Jordan'' None) ''example.com''
          (emailPattern_of ?pd (person ''Jordan'' None)) = Some (r_email ?r)"
    by blast
  then have b: "buildEmail (person ''Jordan'' None) ''example.com''
          (emailPattern_of ?pd (person ''Jordan'' None)) = Some ''jordan@example.com''"
    by simp
  let ?pd' = "\<lparr>d_pattern = Some Firstlast, d_confidence = High, d_source = ''https://acme.io''\<rparr>"
  let ?r' = "\<lparr>r_name = ''Jordan Lee'', r_role = ''Decision Maker'', r_company = ''Acme'',
             r_email = ''jordanlee@acme.io'', r_confidence = High,
             r_source = ''jordan-lee | https://acme.io''\<rparr>"
  have e': "emit ?pd' ''acme.io'' ''Acme'' (person ''Jordan'' (Some ''Lee'')) = Some ?r'"
    by code_simp
  have n': "\<not> no_lastName (person ''Jordan'' (Some ''Lee''))"
    by (simp add: no_lastName_def person_def)
  from e n b e' n' show ?thesis by blast
qed

section \<open>Discovery without a classifiable address\<close>


lemma score_loop_unclassified:
  "list_all (\<lambda>email. inferPattern (local_of email) = None) emails \<Longrightarrow>
   score_loop m emails = m"
  by (induction emails arbitrary: m) simp_all

lemma selectPattern_unclassified:
  "list_all (\<lambda>email. inferPattern (local_of email) = None) emails \<Longrightarrow>
   selectPattern emails = None"
  by (simp add: selectPattern_def score_loop_unclassified)

lemma discover_loop_nothing:
  assumes "\<forall>w. \<forall>u\<in>set urls.
             case fst (fetchHtml w u) of
               None \<Rightarrow> True
             | Some html \<Rightarrow>
                 list_all (\<lambda>email. inferPattern (local_of email) = None)
                   (businessEmails html domain)"
  shows "fst (discover_loop fetchHtml domain w urls) = None"
  using assms
proof (induction urls arbitrary: w)
  case Nil
  then show ?case by simp
next
  case (Cons u urls)
  obtain r w' where f: "fetchHtml w u = (r, w')" by (cases "fetchHtml w u")
  from Cons.prems have rest: "\<forall>w. \<forall>u\<in>set urls.
             case fst (fetchHtml w u) of
               None \<Rightarrow> True
             | Some html \<Rightarrow>
                 list_all (\<lambda>email. inferPattern (local_of email) = None)
                   (businessEmails html domain)"
    by simp
  note ih = Cons.IH [OF rest]
  show ?case
  proof (cases r)
    case None
    with f ih show ?thesis by simp
  next
    case (Some html)
    from Cons.prems f Some
    have "list_all (\<lambda>email. inferPattern (local_of email) = None) (businessEmails html domain)"
      by (auto dest!: spec[of _ w])
    then have "selectPattern (businessEmails html domain) = None"
      by (rule selectPattern_unclassified)
    with f Some ih show ?thesis by simp
  qed
qed

lemma guessPatternFromDomain_eq:
  "guessPatternFromDomain domain =
     (if \<exists>k\<in>set [''io'', ''tech'', ''systems'', ''labs'']. sublist k domain
      then Some FirstLast
      else if \<exists>k\<in>set [''finance'', ''bank'', ''capital'']. sublist k domain
      then Some FirstinitialLast
      else if \<exists>k\<in>set [''media'', ''creative'', ''studio'']. sublist k domain
      then Some Firstlast
      else None)"
  by (simp add: guessPatternFromDomain_def hints_def includes_str_def)

lemma discoverPattern_nothing:
  assumes "nothing_classifiable fetchHtml domain"
  shows "fst (discoverPattern fetchHtml w domain) =
     (case guessPatternFromDomain domain of
        Some p \<Rightarrow> \<lparr>d_pattern = Some p, d_confidence = Medium, d_source = ''https://'' @ domain\<rparr>
      | None \<Rightarrow> \<lparr>d_pattern = None, d_confidence = Low, d_source = ''https://'' @ domain\<rparr>)"
proof -
  from assms have "fst (discover_loop fetchHtml domain w (buildDiscoveryUrls domain)) = None"
    unfolding nothing_classifiable_def by (rule discover_loop_nothing)
  then show ?thesis
    by (cases "discover_loop fetchHtml domain w (buildDiscoveryUrls domain)")
       (simp add: discoverPattern_def split: option.splits)
qed

text \<open>
  Claim C5. When no candidate page gives a classifiable address, discovery answers with
  the first keyword hint that the domain contains: \<open>io\<close>, \<open>tech\<close>, \<open>systems\<close> or
  \<open>labs\<close> for \<open>first.last\<close>, else \<open>finance\<close>, \<open>bank\<close> or \<open>capital\<close> for
  \<open>firstinitial.last\<close>, else \<open>media\<close>, \<open>creative\<close> or \<open>studio\<close> for \<open>firstlast\<close>,
  with confidence medium and source \<open>https://domain\<close>; without a keyword the pattern is
  \<open>null\<close>, the confidence low and the source the same. So \<open>acmetech.io\<close> has
  \<open>first.last\<close> and medium, and \<open>example-corp.com\<close> has \<open>null\<close> and low.
\<close>

theorem discovery_fallback:
  "(nothing_classifiable fetchHtml domain \<longrightarrow>
      fst (discoverPattern fetchHtml w domain) =
        (if \<exists>k\<in>set [''io'', ''tech'', ''systems'', ''labs'']. sublist k domain
         then \<lparr>d_pattern = Some FirstLast, d_confidence = Medium,
               d_source = ''https://'' @ domain\<rparr>
         else if \<exists>k\<in>set [''finance'', ''bank'', ''capital'']. sublist k domain
         then \<lparr>d_pattern = Some FirstinitialLast, d_confidence = Medium,
               d_source = ''https://'' @ domain\<rparr>
         else if \<exists>k\<in>set [''media'', ''creative'', ''studio'']. sublist k domain
         then \<lparr>d_pattern = Some Firstlast, d_confidence = Medium,
               d_source = ''https://'' @ domain\<rparr>
         else \<lparr>d_pattern = None, d_confidence = Low, d_source = ''https://'' @ domain\<rparr>))
   \<and> (nothing_classifiable fetchHtml ''acmetech.io'' \<longrightarrow>
        fst (discoverPattern fetchHtml w ''acmetech.io'') =
          \<lparr>d_pattern = Some FirstLast, d_confidence = Medium,
           d_source = ''https://acmetech.io''\<rparr>)
   \<and> (nothing_classifiable fetchHtml ''example-corp.com'' \<longrightarrow>
        fst (discoverPattern fetchHtml w ''example-corp.com'') =
          \<lparr>d_pattern = None, d_confidence = Low, d_source = ''https://example-corp.com''\<rparr>)"
proof -
  have a: "guessPatternFromDomain ''acmetech.io'' = Some FirstLast" by code_simp
  have b: "guessPatternFromDomain ''example-corp.com'' = None" by code_simp
  show ?thesis
    using a b by (auto simp: discoverPattern_nothing guessPatternFromDomain_eq simp del: set_simps)
qed

theorem discovery_fallback_witness:
  "nothing_classifiable (\<lambda>w u. (Some page_unclassifiable, w)) ''acmetech.io''
   \<and> businessEmails page_unclassifiable ''acmetech.io''
       = [''sales-team@acmetech.io'', ''j_doe@acmetech.io'']
   \<and> fst (discoverPattern (\<lambda>w u. (Some page_unclassifiable, w)) () ''acmetech.io'') =
          \<lparr>d_pattern = Some FirstLast, d_confidence = Medium,
           d_source = ''https://acmetech.io''\<rparr>"
proof -
  have e: "businessEmails page_unclassifiable ''acmetech.io''
             = [''sales-team@acmetech.io'', ''j_doe@acmetech.io'']"
    by code_simp
  have u: "list_all (\<lambda>email. inferPattern (local_of email) = None)
             [''sales-team@acmetech.io'', ''j_doe@acmetech.io'']"
    by code_simp
  have n: "nothing_classifiable (\<lambda>w u. (Some page_unclassifiable, w)) ''acmetech.io''"
    using u by (simp add: nothing_classifiable_def e)
  have "fst (discoverPattern (\<lambda>w u. (Some page_unclassifiable, w)) () ''acmetech.io'') =
          \<lparr>d_pattern = Some FirstLast, d_confidence = Medium,
           d_source = ''https://acmetech.io''\<rparr>"
    using discovery_fallback [of "\<lambda>w u. (Some page_unclassifiable, w)" "''acmetech.io''" "()",
            THEN conjunct2, THEN conjunct1] n
    by (rule mp)
  with n e show ?thesis by (intro conjI)
qed

section \<open>Selection of the pattern\<close>

lemma PATTERN_PRIORITY_nonzero: "PATTERN_PRIORITY p \<noteq> 0"
  by (cases p) simp_all

lemma score_loop_foldl: "score_loop m emails = foldl add_score m (classified emails)"
  by (induction emails arbitrary: m)
     (simp_all add: classified_def List.map_filter_simps add_score_def PATTERN_PRIORITY_nonzero
        split: option.splits)

lemma map_of_map_set: "map_of (map_set m k v) = (map_of m)(k \<mapsto> v)"
  by (induction m) (auto simp: fun_eq_iff)

lemma keys_map_set:
  "map fst (map_set m k v) = (if k \<in> set (map fst m) then map fst m else map fst m @ [k])"
  by (induction m) (auto simp: rev_image_eqI)

lemma set_set_order: "set (set_order xs) = set xs"
  by (induction xs) auto

lemma distinct_set_order: "distinct (set_order xs)"
  by (induction xs) (auto simp: set_set_order)

lemma set_order_append:
  "set_order (xs @ ys) = set_order xs @ filter (\<lambda>y. y \<notin> set xs) (set_order ys)"
  by (induction xs) (auto intro: filter_cong)

lemma keys_foldl_add_score:
  "map fst (foldl add_score m ps)
     = map fst m @ filter (\<lambda>q. q \<notin> set (map fst m)) (set_order ps)"
proof (induction ps arbitrary: m)
  case Nil
  then show ?case by simp
next
  case (Cons x xs)
  show ?case
  proof (cases "x \<in> set (map fst m)")
    case True
    then have k: "map fst (add_score m x) = map fst m"
      by (simp add: add_score_def keys_map_set)
    have "filter (\<lambda>q. q \<notin> set (map fst m)) (filter (\<lambda>y. y \<noteq> x) (set_order xs))
            = filter (\<lambda>q. q \<notin> set (map fst m)) (set_order xs)"
      using True by (auto intro: filter_cong)
    with True show ?thesis by (simp add: Cons.IH k)
  next
    case False
    then have k: "map fst (add_score m x) = map fst m @ [x]"
      by (simp add: add_score_def keys_map_set)
    have "filter (\<lambda>q. q \<notin> set (map fst m @ [x])) (set_order xs)
            = filter (\<lambda>q. q \<notin> set (map fst m)) (filter (\<lambda>y. y \<noteq> x) (set_order xs))"
      by (auto intro: filter_cong)
    with False show ?thesis by (simp add: Cons.IH k)
  qed
qed

lemma score_of_add_score:
  "score_of (add_score m x) q = (if q = x then score_of m x + PATTERN_PRIORITY x else score_of m q)"
  by (simp add: score_of_def add_score_def map_of_map_set)

lemma score_of_foldl:
  "score_of (foldl add_score m ps) q = score_of m q + total ps q"
  by (induction ps arbitrary: m)
     (auto simp: score_of_add_score total_def algebra_simps)

lemma assoc_list_by_keys:
  "(\<And>k v. (k, v) \<in> set al \<Longrightarrow> v = f k) \<Longrightarrow> al = map (\<lambda>k. (k, f k)) (map fst al)"
  by (induction al) auto

lemma score_table:
  "score_loop [] emails
     = map (\<lambda>q. (q, total (classified emails) q)) (set_order (classified emails))"
proof -
  let ?ps = "classified emails"
  let ?al = "foldl add_score [] ?ps"
  have keys: "map fst ?al = set_order ?ps"
    using keys_foldl_add_score [of "[]" ?ps] by simp
  then have d: "distinct (map fst ?al)" by (simp add: distinct_set_order)
  have "v = total ?ps k" if "(k, v) \<in> set ?al" for k v
  proof -
    from that d have "map_of ?al k = Some v" by simp
    then have "score_of ?al k = v" by (simp add: score_of_def)
    moreover have "score_of ?al k = score_of [] k + total ?ps k" by (rule score_of_foldl)
    moreover have "score_of [] k = 0" by (simp add: score_of_def)
    ultimately show ?thesis by simp
  qed
  then have "?al = map (\<lambda>k. (k, total ?ps k)) (map fst ?al)"
    by (rule assoc_list_by_keys)
  with keys show ?thesis by (simp add: score_loop_foldl)
qed

lemma best_loop_running:
  "\<exists>p. best_loop (Some b) (Some (f b)) (map (\<lambda>k. (k, f k)) ks) = Some p
       \<and> (\<forall>q\<in>set ks. f q \<le> f p)
       \<and> ((p = b \<and> (\<forall>q\<in>set ks. f q \<le> f b))
          \<or> (\<exists>pre post. ks = pre @ p # post \<and> (\<forall>q\<in>set pre. f q < f p) \<and> f b < f p))"
proof (induction ks arbitrary: b)
  case Nil
  then show ?case by simp
next
  case (Cons k ks)
  show ?case
  proof (cases "f b < f k")
    case True
    from Cons.IH [of k] obtain p where
      r: "best_loop (Some k) (Some (f k)) (map (\<lambda>k. (k, f k)) ks) = Some p"
      and m: "\<forall>q\<in>set ks. f q \<le> f p"
      and c: "(p = k \<and> (\<forall>q\<in>set ks. f q \<le> f k))
          \<or> (\<exists>pre post. ks = pre @ p # post \<and> (\<forall>q\<in>set pre. f q < f p) \<and> f k < f p)"
      by blast
    from c have kp: "f k \<le> f p" by auto
    from c have "\<exists>pre post. k # ks = pre @ p # post \<and> (\<forall>q\<in>set pre. f q < f p) \<and> f b < f p"
    proof
      assume "p = k \<and> (\<forall>q\<in>set ks. f q \<le> f k)"
      with True have "k # ks = [] @ p # ks \<and> (\<forall>q\<in>set []. f q < f p) \<and> f b < f p" by simp
      then show ?thesis by blast
    next
      assume "\<exists>pre post. ks = pre @ p # post \<and> (\<forall>q\<in>set pre. f q < f p) \<and> f k < f p"
      then obtain pre post where "ks = pre @ p # post" "\<forall>q\<in>set pre. f q < f p" "f k < f p"
        by blast
      with True have "k # ks = (k # pre) @ p # post \<and> (\<forall>q\<in>set (k # pre). f q < f p) \<and> f b < f p"
        by simp
      then show ?thesis by blast
    qed
    with True r m kp show ?thesis by auto
  next
    case False
    from Cons.IH [of b] obtain p where
      r: "best_loop (Some b) (Some (f b)) (map (\<lambda>k. (k, f k)) ks) = Some p"
      and m: "\<forall>q\<in>set ks. f q \<le> f p"
      and c: "(p = b \<and> (\<forall>q\<in>set ks. f q \<le> f b))
          \<or> (\<exists>pre post. ks = pre @ p # post \<and> (\<forall>q\<in>set pre. f q < f p) \<and> f b < f p)"
      by blast
    from c have bp: "f b \<le> f p" by auto
    from c have "(p = b \<and> (\<forall>q\<in>set (k # ks). f q \<le> f b))
          \<or> (\<exists>pre post. k # ks = pre @ p # post \<and> (\<forall>q\<in>set pre. f q < f p) \<and> f b < f p)"
    proof
      assume "p = b \<and> (\<forall>q\<in>set ks. f q \<le> f b)"
      with False show ?thesis by auto
    next
      assume "\<exists>pre post. ks = pre @ p # post \<and> (\<forall>q\<in>set pre. f q < f p) \<and> f b < f p"
      then obtain pre post where "ks = pre @ p # post" "\<forall>q\<in>set pre. f q < f p" "f b < f p"
        by blast
      with False have "k # ks = (k # pre) @ p # post \<and> (\<forall>q\<in>set (k # pre). f q < f p) \<and> f b < f p"
        by auto
      then show ?thesis by blast
    qed
    with False r m bp show ?thesis by auto
  qed
qed

lemma best_loop_first_maximum:
  assumes "ks \<noteq> []"
  shows "\<exists>p pre post. best_loop None None (map (\<lambda>k. (k, f k)) ks) = Some p
       \<and> ks = pre @ p # post \<and> (\<forall>q\<in>set pre. f q < f p) \<and> (\<forall>q\<in>set ks. f q \<le> f p)"
proof -
  from assms obtain k ks' where ks: "ks = k # ks'" by (cases ks) auto
  from best_loop_running [of k f ks'] obtain p where
    r: "best_loop (Some k) (Some (f k)) (map (\<lambda>k. (k, f k)) ks') = Some p"
    and m: "\<forall>q\<in>set ks'. f q \<le> f p"
    and c: "(p = k \<and> (\<forall>q\<in>set ks'. f q \<le> f k))
          \<or> (\<exists>pre post. ks' = pre @ p # post \<and> (\<forall>q\<in>set pre. f q < f p) \<and> f k < f p)"
    by blast
  from c have kp: "f k \<le> f p" by auto
  from c have "\<exists>pre post. ks = pre @ p # post \<and> (\<forall>q\<in>set pre. f q < f p)"
  proof
    assume "p = k \<and> (\<forall>q\<in>set ks'. f q \<le> f k)"
    with ks have "ks = [] @ p # ks' \<and> (\<forall>q\<in>set []. f q < f p)" by simp
    then show ?thesis by blast
  next
    assume "\<exists>pre post. ks' = pre @ p # post \<and> (\<forall>q\<in>set pre. f q < f p) \<and> f k < f p"
    then obtain pre post where "ks' = pre @ p # post" "\<forall>q\<in>set pre. f q < f p" "f k < f p"
      by blast
    with ks have "ks = (k # pre) @ p # post \<and> (\<forall>q\<in>set (k # pre). f q < f p)" by simp
    then show ?thesis by blast
  qed
  with ks r m kp show ?thesis by auto
qed

lemma takeWhile_before: "p \<notin> set a \<Longrightarrow> takeWhile (\<lambda>x. x \<noteq> p) (a @ p # b) = a"
  by (induction a) auto

lemma first_occurrence_split:
  assumes "set_order ps = pre' @ p # post'"
  shows "\<exists>pre post. ps = pre @ p # post \<and> set pre = set pre'"
proof -
  from assms have "p \<in> set (set_order ps)" by simp
  then have "p \<in> set ps" by (simp add: set_set_order)
  then obtain pre post where ps: "ps = pre @ p # post" and np: "p \<notin> set pre"
    by (auto dest: split_list_first)
  have eq: "set_order ps
          = set_order pre @ p # filter (\<lambda>y. y \<notin> set pre) (filter (\<lambda>y. y \<noteq> p) (set_order post))"
    using np by (simp add: ps set_order_append)
  have nin: "p \<notin> set (set_order pre)" using np by (simp add: set_set_order)
  have 1: "takeWhile (\<lambda>x. x \<noteq> p) (set_order ps) = set_order pre"
    by (simp only: eq takeWhile_before [OF nin])
  have nin': "p \<notin> set pre'"
    using distinct_set_order [of ps] assms by simp
  have 2: "takeWhile (\<lambda>x. x \<noteq> p) (set_order ps) = pre'"
    by (simp only: assms takeWhile_before [OF nin'])
  have "set_order pre = pre'" using 1 [symmetric] 2 by (rule trans)
  then have "set pre = set pre'" using set_set_order [of pre] by simp
  with ps show ?thesis by blast
qed

lemma total_zero: "q \<notin> set ps \<Longrightarrow> total ps q = 0"
  by (simp add: total_def count_list_0_iff)

lemma total_pos: "q \<in> set ps \<Longrightarrow> 0 < total ps q"
proof -
  assume "q \<in> set ps"
  then have "count_list ps q \<noteq> 0" by (simp add: count_list_0_iff)
  then have "0 < count_list ps q" by simp
  moreover have "0 < PATTERN_PRIORITY q" by (cases q) simp_all
  ultimately show ?thesis by (simp add: total_def)
qed

lemma selectPattern_first_maximum:
  assumes "classified emails \<noteq> []"
  shows "\<exists>p pre post. selectPattern emails = Some p
       \<and> classified emails = pre @ p # post
       \<and> (\<forall>q\<in>set pre. total (classified emails) q < total (classified emails) p)
       \<and> (\<forall>q. total (classified emails) q \<le> total (classified emails) p)"
proof -
  let ?ps = "classified emails"
  from assms have "set_order ?ps \<noteq> []" by (cases ?ps) auto
  from best_loop_first_maximum [OF this, of "total ?ps"] obtain p pre' post' where
    r: "best_loop None None (map (\<lambda>k. (k, total ?ps k)) (set_order ?ps)) = Some p"
    and s: "set_order ?ps = pre' @ p # post'"
    and lt: "\<forall>q\<in>set pre'. total ?ps q < total ?ps p"
    and le: "\<forall>q\<in>set (set_order ?ps). total ?ps q \<le> total ?ps p"
    by blast
  from first_occurrence_split [OF s] obtain pre post where
    ps: "?ps = pre @ p # post" and e: "set pre = set pre'" by blast
  from ps have "p \<in> set ?ps" by simp
  then have pp: "0 < total ?ps p" by (rule total_pos)
  have "total ?ps q \<le> total ?ps p" for q
  proof (cases "q \<in> set ?ps")
    case True
    with le show ?thesis by (simp add: set_set_order)
  next
    case False
    with pp show ?thesis by (simp add: total_zero)
  qed
  with r ps e lt show ?thesis
    unfolding selectPattern_def score_table by blast
qed

lemma set_classified:
  "set (classified emails) = {p. \<exists>email\<in>set emails. inferPattern (local_of email) = Some p}"
  by (induction emails) (auto simp: classified_def List.map_filter_simps split: option.splits)

lemma selectPattern_only_first_last:
  assumes "emails \<noteq> []"
    and "\<forall>email\<in>set emails. inferPattern (local_of email) = Some FirstLast"
  shows "selectPattern emails = Some FirstLast"
proof -
  from assms(1) obtain e where e: "e \<in> set emails" by (cases emails) auto
  with assms(2) have "inferPattern (local_of e) = Some FirstLast" by blast
  with e have "FirstLast \<in> set (classified emails)" unfolding set_classified by blast
  then have "classified emails \<noteq> []" by auto
  from selectPattern_first_maximum [OF this] obtain p pre post where
    r: "selectPattern emails = Some p" and c: "classified emails = pre @ p # post" by blast
  from c have "p \<in> set (classified emails)" by simp
  then obtain x where "x \<in> set emails" "inferPattern (local_of x) = Some p"
    unfolding set_classified by blast
  with assms(2) have "p = FirstLast" by auto
  with r show ?thesis by simp
qed

lemma businessEmails_empty_page: "businessEmails [] domain = []"
  by (simp add: businessEmails_def match_EMAIL_REGEX_def)

lemma discoverPattern_acme:
  assumes f: "fetchHtml w ''https://acme.io'' = (Some html, w')"
    and b: "set (businessEmails html ''acme.io'') = {''jordan.lee@acme.io'', ''sam.ray@acme.io''}"
  shows "discoverPattern fetchHtml w ''acme.io''
           = (\<lparr>d_pattern = Some FirstLast, d_confidence = High, d_source = ''https://acme.io''\<rparr>,
              w')"
proof -
  have u: "buildDiscoveryUrls ''acme.io''
             = ''https://acme.io'' # tl (buildDiscoveryUrls ''acme.io'')"
    by code_simp
  have 1: "inferPattern (local_of ''jordan.lee@acme.io'') = Some FirstLast" by code_simp
  have 2: "inferPattern (local_of ''sam.ray@acme.io'') = Some FirstLast" by code_simp
  have ne: "businessEmails html ''acme.io'' \<noteq> []"
  proof
    assume "businessEmails html ''acme.io'' = []"
    then have "set (businessEmails html ''acme.io'') = {}" by simp
    with b show False by (simp only: insert_not_empty [symmetric])
  qed
  have h: "html \<noteq> []"
  proof
    assume "html = []"
    with ne show False by (simp add: businessEmails_empty_page)
  qed
  have "\<forall>email\<in>set (businessEmails html ''acme.io'').
          inferPattern (local_of email) = Some FirstLast"
    unfolding b using 1 2 by blast
  with ne have s: "selectPattern (businessEmails html ''acme.io'') = Some FirstLast"
    by (rule selectPattern_only_first_last)
  have "discover_loop fetchHtml ''acme.io'' w (buildDiscoveryUrls ''acme.io'')
          = (Some (FirstLast, ''https://acme.io''), w')"
    by (subst u) (simp add: f h ne s)
  then show ?thesis by (simp add: discoverPattern_def)
qed

text \<open>
  Claim C4. For a list of addresses of which at least one is classified, the selected
  pattern has the greatest total, where the total of a pattern is its weight
  (\<open>first.last\<close> 5, \<open>firstlast\<close> 4, \<open>firstinitial.last\<close> 3, \<open>first.lastinitial\<close> 3,
  \<open>first\<close> 2) once for every address of the pattern; among the patterns of greatest
  total it is the one met first, every pattern met before it having a smaller total. A
  page whose addresses on \<open>acme.io\<close> are \<open>jordan.lee@acme.io\<close> and \<open>sam.ray@acme.io\<close> gives
  \<open>first.last\<close> with confidence high.
\<close>

theorem selectPattern_maximal_total:
  "(classified emails \<noteq> [] \<longrightarrow>
      (\<exists>p pre post. selectPattern emails = Some p
         \<and> classified emails = pre @ p # post
         \<and> (\<forall>q\<in>set pre. total (classified emails) q < total (classified emails) p)
         \<and> (\<forall>q. total (classified emails) q \<le> total (classified emails) p)))
   \<and> map PATTERN_PRIORITY [FirstLast, Firstlast, FirstinitialLast, FirstLastinitial, First]
       = [5, 4, 3, 3, 2]
   \<and> (fetchHtml w ''https://acme.io'' = (Some html, w')
        \<and> set (businessEmails html ''acme.io'') = {''jordan.lee@acme.io'', ''sam.ray@acme.io''}
      \<longrightarrow> discoverPattern fetchHtml w ''acme.io''
           = (\<lparr>d_pattern = Some FirstLast, d_confidence = High, d_source = ''https://acme.io''\<rparr>,
              w'))"
  using selectPattern_first_maximum [of emails] discoverPattern_acme [of fetchHtml w html w']
  by simp

theorem selectPattern_maximal_total_witness:
  "classified [''ab@acme.io'', ''abcd@acme.io'', ''cd@acme.io''] = [First, Firstlast, First]
   \<and> total [First, Firstlast, First] First = 4
   \<and> total [First, Firstlast, First] Firstlast = 4
   \<and> selectPattern [''ab@acme.io'', ''abcd@acme.io'', ''cd@acme.io''] = Some First
   \<and> businessEmails page_two_addresses ''acme.io'' = [''jordan.lee@acme.io'', ''sam.ray@acme.io'']
   \<and> discoverPattern (\<lambda>w u. (Some page_two_addresses, w)) () ''acme.io''
       = (\<lparr>d_pattern = Some FirstLast, d_confidence = High, d_source = ''https://acme.io''\<rparr>, ())"
proof -
  have c: "classified [''ab@acme.io'', ''abcd@acme.io'', ''cd@acme.io''] = [First, Firstlast, First]"
    by code_simp
  have t: "total [First, Firstlast, First] First = 4" "total [First, Firstlast, First] Firstlast = 4"
    by (simp_all add: total_def)
  have s: "selectPattern [''ab@acme.io'', ''abcd@acme.io'', ''cd@acme.io''] = Some First"
    by code_simp
  have b: "businessEmails page_two_addresses ''acme.io''
             = [''jordan.lee@acme.io'', ''sam.ray@acme.io'']"
    by code_simp
  have h: "(\<lambda>w u. (Some page_two_addresses, w)) () ''https://acme.io''
             = (Some page_two_addresses, ())
           \<and> set (businessEmails page_two_addresses ''acme.io'')
             = {''jordan.lee@acme.io'', ''sam.ray@acme.io''}"
    by (simp add: b)
  have d: "discoverPattern (\<lambda>w u. (Some page_two_addresses, w)) () ''acme.io''
       = (\<lparr>d_pattern = Some FirstLast, d_confidence = High, d_source = ''https://acme.io''\<rparr>, ())"
    using selectPattern_maximal_total
            [of "[]" "\<lambda>w u. (Some page_two_addresses, w)" "()" page_two_addresses "()",
             THEN conjunct2, THEN conjunct2] h
    by (rule mp)
  from c t s b d show ?thesis by (intro conjI)
qed

section \<open>Deduplication\<close>

lemma lower_char_code:
  "has_lower_case c \<Longrightarrow> char_code (lower_char c) = char_code c + 32"
proof -
  assume h: "has_lower_case c"
  then have "char_code c + 32 < 256"
    by (auto simp: has_lower_case_def is_upper_def)
  then have "(char_code c + 32) mod 256 = char_code c + 32" by simp
  with h show ?thesis
    by (simp add: lower_char_def char_code_def of_char_of)
qed

lemma has_lower_case_code: "has_lower_case c \<Longrightarrow> 65 \<le> char_code c"
  by (auto simp: has_lower_case_def is_upper_def)

lemma lower_char_minus: "lower_char c = CHR ''-'' \<longleftrightarrow> c = CHR ''-''"
proof (cases "has_lower_case c")
  case True
  have m: "char_code CHR ''-'' = 45" by (simp add: char_code_def)
  from True have "char_code (lower_char c) \<noteq> char_code CHR ''-''"
    using has_lower_case_code [of c] by (simp add: lower_char_code m)
  moreover from True have "c \<noteq> CHR ''-''"
    using has_lower_case_code [of c] m by auto
  ultimately show ?thesis by auto
next
  case False
  then show ?thesis by (simp add: lower_char_def)
qed

lemma lower_char_at: "lower_char c = CHR ''@'' \<longleftrightarrow> c = CHR ''@''"
proof (cases "has_lower_case c")
  case True
  have m: "char_code CHR ''@'' = 64" by (simp add: char_code_def)
  from True have "char_code (lower_char c) \<noteq> char_code CHR ''@''"
    using has_lower_case_code [of c] by (simp add: lower_char_code m)
  moreover from True have "c \<noteq> CHR ''@''"
    using has_lower_case_code [of c] m by auto
  ultimately show ?thesis by auto
next
  case False
  then show ?thesis by (simp add: lower_char_def)
qed

lemma lower_char_minus': "CHR ''-'' = lower_char c \<longleftrightarrow> CHR ''-'' = c"
  using lower_char_minus [of c] by metis

lemma lower_char_at': "CHR ''@'' = lower_char c \<longleftrightarrow> CHR ''@'' = c"
  using lower_char_at [of c] by metis

lemma toLowerCase_keeps_minus: "CHR ''-'' \<in> set (toLowerCase s) \<longleftrightarrow> CHR ''-'' \<in> set s"
  by (induction s) (simp_all add: toLowerCase_def lower_char_minus')

lemma toLowerCase_keeps_at: "CHR ''@'' \<in> set (toLowerCase s) \<longleftrightarrow> CHR ''@'' \<in> set s"
  by (induction s) (simp_all add: toLowerCase_def lower_char_at')

lemma toLowerCase_append: "toLowerCase (a @ b) = toLowerCase a @ toLowerCase b"
  by (simp add: toLowerCase_def)

lemma not_alpha_minus: "\<not> is_alpha CHR ''-''"
  by (simp add: is_alpha_def is_lower_def is_upper_def char_code_def)

lemma base_letter_no_minus: "CHR ''-'' \<notin> set (base_letter c)"
proof (cases "is_alpha c")
  case True
  then have "c \<noteq> CHR ''-''" using not_alpha_minus by auto
  with True show ?thesis by (simp add: base_letter_def lower_char_minus')
next
  case False
  show ?thesis
  proof (cases "map_of NFD_TABLE (char_code c)")
    case None
    with False show ?thesis by (simp add: base_letter_def)
  next
    case (Some bm)
    obtain b m where bm: "bm = (b, m)" by (cases bm)
    from Some bm have "is_alpha b" using NFD_TABLE_lookup [of "char_code c" b m] by simp
    then have "b \<noteq> CHR ''-''" using not_alpha_minus by auto
    with False Some bm show ?thesis by (simp add: base_letter_def lower_char_minus')
  qed
qed

lemma sanitizePart_no_minus: "CHR ''-'' \<notin> set (sanitizePart v)"
proof (cases v)
  case None
  then show ?thesis by (simp add: sanitizePart_def)
next
  case (Some s)
  then show ?thesis by (simp add: sanitizePart_letters base_letter_no_minus)
qed

lemma local_template_no_minus:
  "CHR ''-'' \<notin> set f \<Longrightarrow> CHR ''-'' \<notin> set l \<Longrightarrow> CHR ''-'' \<notin> set (local_template p f l)"
  by (cases p) (auto simp: local_template_def dest: in_set_takeD)

lemma split_at_first:
  "x \<notin> set a \<Longrightarrow> x \<notin> set a' \<Longrightarrow> a @ x # b = a' @ x # b' \<Longrightarrow> a = a' \<and> b = b'"
proof (induction a arbitrary: a')
  case Nil
  then show ?case by (cases a') auto
next
  case (Cons y a)
  then show ?case by (cases a') auto
qed

lemma split_at_last:
  assumes "x \<notin> set b" "x \<notin> set b'" "a @ x # b = a' @ x # b'"
  shows "a = a' \<and> b = b'"
proof -
  from assms(3) have "rev (a @ x # b) = rev (a' @ x # b')" by simp
  then have "rev b @ x # rev a = rev b' @ x # rev a'" by simp
  with assms(1,2) have "rev b = rev b' \<and> rev a = rev a'"
    by (intro split_at_first) simp_all
  then show ?thesis by simp
qed

lemma synthesized_shape:
  assumes "synthesized r"
  shows "\<exists>l d. toLowerCase (r_email r) = l @ ''@'' @ d \<and> CHR ''-'' \<notin> set l \<and> CHR ''@'' \<notin> set d"
proof -
  from assms obtain c domain p where
    d: "CHR ''@'' \<notin> set domain" and b: "buildEmail c domain p = Some (r_email r)"
    unfolding synthesized_def by blast
  let ?l = "local_template p (sanitizePart (Some (firstName c))) (sanitizePart (lastName c))"
  from b have e: "r_email r = ?l @ ''@'' @ domain"
    by (simp add: buildEmail_eq split: if_splits)
  have "CHR ''-'' \<notin> set ?l"
    by (intro local_template_no_minus sanitizePart_no_minus)
  then have "CHR ''-'' \<notin> set (toLowerCase ?l)" by (simp add: toLowerCase_keeps_minus)
  moreover from d have "CHR ''@'' \<notin> set (toLowerCase domain)" by (simp add: toLowerCase_keeps_at)
  moreover have "toLowerCase (r_email r) = toLowerCase ?l @ ''@'' @ toLowerCase domain"
    by (simp add: e toLowerCase_append) (simp add: toLowerCase_def lower_char_at)
  ultimately show ?thesis by blast
qed

lemma signature_injective:
  assumes "synthesized a" "synthesized b"
  shows "signature a = signature b \<longleftrightarrow> same_contact a b"
proof
  assume s: "signature a = signature b"
  from synthesized_shape [OF assms(1)] obtain l d where
    a: "toLowerCase (r_email a) = l @ ''@'' @ d" "CHR ''-'' \<notin> set l" "CHR ''@'' \<notin> set d"
    by blast
  from synthesized_shape [OF assms(2)] obtain l' d' where
    b: "toLowerCase (r_email b) = l' @ ''@'' @ d'" "CHR ''-'' \<notin> set l'" "CHR ''@'' \<notin> set d'"
    by blast
  let ?ca = "toLowerCase (r_company a)" and ?cb = "toLowerCase (r_company b)"
  from s a(1) b(1) have "(?ca @ ''-'' @ l) @ CHR ''@'' # d = (?cb @ ''-'' @ l') @ CHR ''@'' # d'"
    by (simp add: signature_def)
  with a(3) b(3) have 1: "?ca @ ''-'' @ l = ?cb @ ''-'' @ l' \<and> d = d'"
    by (intro split_at_last)
  then have "?ca @ CHR ''-'' # l = ?cb @ CHR ''-'' # l'" by simp
  with a(2) b(2) have 2: "?ca = ?cb \<and> l = l'" by (intro split_at_last)
  from 1 2 a(1) b(1) show "same_contact a b" by (simp add: same_contact_def)
next
  assume "same_contact a b"
  then show "signature a = signature b" by (simp add: same_contact_def signature_def)
qed

lemma ex_less_Suc_Cons:
  "(\<exists>j<Suc i. P ((x # xs) ! j)) \<longleftrightarrow> P x \<or> (\<exists>j<i. P (xs ! j))"
proof
  assume "\<exists>j<Suc i. P ((x # xs) ! j)"
  then obtain j where j: "j < Suc i" "P ((x # xs) ! j)" by blast
  show "P x \<or> (\<exists>j<i. P (xs ! j))"
  proof (cases j)
    case 0
    with j show ?thesis by simp
  next
    case (Suc k)
    with j have "k < i \<and> P (xs ! k)" by simp
    then show ?thesis by blast
  qed
next
  assume "P x \<or> (\<exists>j<i. P (xs ! j))"
  then show "\<exists>j<Suc i. P ((x # xs) ! j)"
  proof
    assume "P x"
    then have "0 < Suc i \<and> P ((x # xs) ! 0)" by simp
    then show ?thesis by blast
  next
    assume "\<exists>j<i. P (xs ! j)"
    then obtain j where "j < i" "P (xs ! j)" by blast
    then have "Suc j < Suc i \<and> P ((x # xs) ! Suc j)" by simp
    then show ?thesis by blast
  qed
qed

lemma dedup_loop_index:
  "dedup_loop seen rs
     = map ((!) rs)
         (filter (\<lambda>i. signature (rs ! i) \<notin> seen
                      \<and> \<not> (\<exists>j<i. signature (rs ! j) = signature (rs ! i)))
            [0..<length rs])"
proof (induction rs arbitrary: seen)
  case Nil
  then show ?case by simp
next
  case (Cons x xs)
  let ?Q = "\<lambda>i. signature ((x # xs) ! i) \<notin> seen
                \<and> \<not> (\<exists>j<i. signature ((x # xs) ! j) = signature ((x # xs) ! i))"
  have upt: "[0..<length (x # xs)] = 0 # map Suc [0..<length xs]"
    by (simp add: upt_conv_Cons map_Suc_upt del: upt_Suc)
  have QS: "?Q (Suc i) \<longleftrightarrow>
              signature (xs ! i) \<notin> seen \<and> signature x \<noteq> signature (xs ! i)
              \<and> \<not> (\<exists>j<i. signature (xs ! j) = signature (xs ! i))" for i
    using ex_less_Suc_Cons [of i "\<lambda>r. signature r = signature (xs ! i)" x xs] by auto
  have shift: "map ((!) (x # xs)) (filter ?Q [0..<length (x # xs)])
         = (if signature x \<in> seen then [] else [x])
           @ map ((!) xs) (filter (\<lambda>i. ?Q (Suc i)) [0..<length xs])"
    by (simp only: upt) (simp add: filter_map comp_def)
  show ?case
  proof (cases "signature x \<in> seen")
    case True
    then have "(\<lambda>i. ?Q (Suc i))
                 = (\<lambda>i. signature (xs ! i) \<notin> seen
                        \<and> \<not> (\<exists>j<i. signature (xs ! j) = signature (xs ! i)))"
      unfolding QS by (auto simp: fun_eq_iff)
    with True show ?thesis by (simp only: shift) (simp add: Cons.IH)
  next
    case False
    then have "(\<lambda>i. ?Q (Suc i))
                 = (\<lambda>i. signature (xs ! i) \<notin> insert (signature x) seen
                        \<and> \<not> (\<exists>j<i. signature (xs ! j) = signature (xs ! i)))"
      unfolding QS by (auto simp: fun_eq_iff)
    with False show ?thesis by (simp only: shift) (simp add: Cons.IH)
  qed
qed

section \<open>The role of a person\<close>

lemma sort_insert_insort_key:
  "sort_insert (\<lambda>a b. f b - f a) x ys = insort_key (\<lambda>l. - f l) x ys"
  for f :: "'a \<Rightarrow> int"
  by (induction ys) simp_all

lemma js_sort_sort_key:
  "js_sort (\<lambda>a b. f b - f a) xs = sort_key (\<lambda>l. - f l) xs"
  for f :: "'a \<Rightarrow> int"
  by (induction xs) (simp_all add: sort_insert_insort_key)

lemma js_sort_descending:
  "sorted_wrt (\<lambda>a b. f b \<le> f a) (js_sort (\<lambda>a b. f b - f a) xs)"
  for f :: "'a \<Rightarrow> int"
proof -
  have "sorted (map (\<lambda>l. - f l) (sort_key (\<lambda>l. - f l) xs))" by (rule sorted_sort_key)
  then show ?thesis by (simp add: js_sort_sort_key sorted_map)
qed

lemma js_sort_stable:
  "filter (\<lambda>l. f l = k) (js_sort (\<lambda>a b. f b - f a) xs) = filter (\<lambda>l. f l = k) xs"
  for f :: "'a \<Rightarrow> int"
proof -
  have "filter (\<lambda>l. - f l = - k) (sort_key (\<lambda>l. - f l) xs) = filter (\<lambda>l. - f l = - k) xs"
    by (rule sort_key_stable)
  then show ?thesis by (simp add: js_sort_sort_key)
qed

lemma classify_tokens_roles:
  "set (fst (classify_tokens mr nt ts))
     = set mr \<union> {l. \<exists>t\<in>set ts. find_role (filter is_lower t) = Some l}"
  by (induction ts arbitrary: mr nt) (auto split: option.splits)

lemma classify_tokens_distinct:
  "distinct mr \<Longrightarrow> distinct (fst (classify_tokens mr nt ts))"
  by (induction ts arbitrary: mr nt) (auto split: option.splits)

lemma extractContact_role:
  assumes "extractContact URL u cn = [c]"
  shows "role c = role_of (matched_roles URL u)"
  using assms
  by (auto simp: extractContact_def matched_roles_def Let_def
           split: if_splits prod.splits option.splits)

lemma slug_jordan:
  assumes "\<forall>l. URL ''https://www.linkedin.com/in/jordan-lee-founder-ceo/'' = Some l
             \<longrightarrow> pathname l = ''/in/jordan-lee-founder-ceo/''"
  shows "slug_of URL ''https://www.linkedin.com/in/jordan-lee-founder-ceo/''
           = ''jordan-lee-founder-ceo''"
proof -
  have 1: "pop (filter_Boolean (split_char CHR ''/'' ''/in/jordan-lee-founder-ceo/''))
             = Some ''jordan-lee-founder-ceo''"
    by code_simp
  have 2: "pop (filter_Boolean
                 (split_char CHR ''/'' ''https://www.linkedin.com/in/jordan-lee-founder-ceo/''))
             = Some ''jordan-lee-founder-ceo''"
    by code_simp
  show ?thesis
  proof (cases "URL ''https://www.linkedin.com/in/jordan-lee-founder-ceo/''")
    case None
    then show ?thesis by (simp only: slug_of_def 2 option.case)
  next
    case (Some l)
    with assms have "pathname l = ''/in/jordan-lee-founder-ceo/''" by blast
    with Some show ?thesis by (simp only: slug_of_def 1 option.case)
  qed
qed

lemma extract_jordan:
  assumes "\<forall>l. URL ''https://www.linkedin.com/in/jordan-lee-founder-ceo/'' = Some l
             \<longrightarrow> pathname l = ''/in/jordan-lee-founder-ceo/''"
  shows "extractContactFromLinkedIn URL
           (JStr ''https://www.linkedin.com/in/jordan-lee-founder-ceo/'') ''Acme''
         = [\<lparr>firstName = ''Jordan'', lastName = Some ''Lee'', fullName = ''Jordan Lee'',
             role = ''Founder & CEO'', company = ''Acme'',
             source = ''https://www.linkedin.com/in/jordan-lee-founder-ceo/''\<rparr>]"
proof -
  have t: "trim ''https://www.linkedin.com/in/jordan-lee-founder-ceo/''
             = ''https://www.linkedin.com/in/jordan-lee-founder-ceo/''"
    by code_simp
  have c: "classify_tokens [] [] (tokens_of ''jordan-lee-founder-ceo'')
             = ([''Founder'', ''CEO''], [''jordan'', ''lee''])"
    by code_simp
  have n: "splitNameTokens [''jordan'', ''lee''] = (Some ''Jordan'', Some ''Lee'')"
    by code_simp
  have r: "role_of [''Founder'', ''CEO''] = ''Founder & CEO''" by code_simp
  have f: "join '' '' (filter_Boolean [''Jordan'', ''Lee'']) = ''Jordan Lee''" by code_simp
  have s: "slug_of URL ''https://www.linkedin.com/in/jordan-lee-founder-ceo/''
             = ''jordan-lee-founder-ceo''"
    using assms by (rule slug_jordan)
  show ?thesis
    by (simp add: extractContact_def t s c n r f)
qed

text \<open>
  Claim C6. The role of a parsed person is the matched labels, sorted by descending
  priority (Founder 5, CEO 4, Executive 3, Operations Head 2, Finance Head 2), labels of
  equal priority staying in the order of their match, and joined with \<open>" & "\<close>; it is
  \<open>Decision Maker\<close> when no label matched. The reference
  \<open>https://www.linkedin.com/in/jordan-lee-founder-ceo/\<close> of company Acme gives one person:
  Jordan, Lee, Jordan Lee, \<open>Founder & CEO\<close>.
\<close>

theorem role_by_priority:
  "(extractContactFromLinkedIn URL (JStr u) cn = [c] \<longrightarrow>
      (matched_roles URL u = [] \<longrightarrow> role c = ''Decision Maker'')
      \<and> (matched_roles URL u \<noteq> [] \<longrightarrow>
           (\<exists>rs. role c = join '' & '' rs
              \<and> sorted_wrt (\<lambda>a b. ROLE_PRIORITY b \<le> ROLE_PRIORITY a) rs
              \<and> (\<forall>k. filter (\<lambda>l. ROLE_PRIORITY l = k) rs
                      = filter (\<lambda>l. ROLE_PRIORITY l = k) (matched_roles URL u)))))
   \<and> set (matched_roles URL u)
       = {l. \<exists>t\<in>set (tokens_of (slug_of URL (trim u))). find_role (filter is_lower t) = Some l}
   \<and> distinct (matched_roles URL u)
   \<and> map ROLE_PRIORITY [''Founder'', ''CEO'', ''Executive'', ''Operations Head'', ''Finance Head'']
       = [5, 4, 3, 2, 2]
   \<and> ((\<forall>l. URL ''https://www.linkedin.com/in/jordan-lee-founder-ceo/'' = Some l
             \<longrightarrow> pathname l = ''/in/jordan-lee-founder-ceo/'')
       \<longrightarrow> extractContactFromLinkedIn URL
             (JStr ''https://www.linkedin.com/in/jordan-lee-founder-ceo/'') ''Acme''
           = [\<lparr>firstName = ''Jordan'', lastName = Some ''Lee'', fullName = ''Jordan Lee'',
               role = ''Founder & CEO'', company = ''Acme'',
               source = ''https://www.linkedin.com/in/jordan-lee-founder-ceo/''\<rparr>])"
proof -
  let ?m = "matched_roles URL u"
  let ?rs = "js_sort (\<lambda>a b. ROLE_PRIORITY b - ROLE_PRIORITY a) ?m"
  have 1: "extractContactFromLinkedIn URL (JStr u) cn = [c] \<longrightarrow>
      (?m = [] \<longrightarrow> role c = ''Decision Maker'')
      \<and> (?m \<noteq> [] \<longrightarrow>
           (\<exists>rs. role c = join '' & '' rs
              \<and> sorted_wrt (\<lambda>a b. ROLE_PRIORITY b \<le> ROLE_PRIORITY a) rs
              \<and> (\<forall>k. filter (\<lambda>l. ROLE_PRIORITY l = k) rs
                      = filter (\<lambda>l. ROLE_PRIORITY l = k) ?m)))"
  proof
    assume "extractContactFromLinkedIn URL (JStr u) cn = [c]"
    then have r: "role c = role_of ?m" by (simp add: extractContact_role)
    have "role c = join '' & '' ?rs
            \<and> sorted_wrt (\<lambda>a b. ROLE_PRIORITY b \<le> ROLE_PRIORITY a) ?rs
            \<and> (\<forall>k. filter (\<lambda>l. ROLE_PRIORITY l = k) ?rs = filter (\<lambda>l. ROLE_PRIORITY l = k) ?m)"
      if "?m \<noteq> []"
      using that r by (simp add: role_of_def js_sort_descending js_sort_stable)
    then have "?m \<noteq> [] \<longrightarrow>
           (\<exists>rs. role c = join '' & '' rs
              \<and> sorted_wrt (\<lambda>a b. ROLE_PRIORITY b \<le> ROLE_PRIORITY a) rs
              \<and> (\<forall>k. filter (\<lambda>l. ROLE_PRIORITY l = k) rs
                      = filter (\<lambda>l. ROLE_PRIORITY l = k) ?m))"
      by blast
    moreover have "?m = [] \<longrightarrow> role c = ''Decision Maker''"
      using r by (simp add: role_of_def)
    ultimately show "(?m = [] \<longrightarrow> role c = ''Decision Maker'')
      \<and> (?m \<noteq> [] \<longrightarrow>
           (\<exists>rs. role c = join '' & '' rs
              \<and> sorted_wrt (\<lambda>a b. ROLE_PRIORITY b \<le> ROLE_PRIORITY a) rs
              \<and> (\<forall>k. filter (\<lambda>l. ROLE_PRIORITY l = k) rs
                      = filter (\<lambda>l. ROLE_PRIORITY l = k) ?m)))"
      by blast
  qed
  have 2: "set ?m
       = {l. \<exists>t\<in>set (tokens_of (slug_of URL (trim u))). find_role (filter is_lower t) = Some l}"
    by (simp add: matched_roles_def classify_tokens_roles)
  have 3: "distinct ?m" by (simp add: matched_roles_def classify_tokens_distinct)
  have 4: "map ROLE_PRIORITY
             [''Founder'', ''CEO'', ''Executive'', ''Operations Head'', ''Finance Head'']
           = [5, 4, 3, 2, 2]"
    by code_simp
  have 5: "(\<forall>l. URL ''https://www.linkedin.com/in/jordan-lee-founder-ceo/'' = Some l
             \<longrightarrow> pathname l = ''/in/jordan-lee-founder-ceo/'')
       \<longrightarrow> extractContactFromLinkedIn URL
             (JStr ''https://www.linkedin.com/in/jordan-lee-founder-ceo/'') ''Acme''
           = [\<lparr>firstName = ''Jordan'', lastName = Some ''Lee'', fullName = ''Jordan Lee'',
               role = ''Founder & CEO'', company = ''Acme'',
               source = ''https://www.linkedin.com/in/jordan-lee-founder-ceo/''\<rparr>]"
    by (rule impI) (rule extract_jordan)
  show ?thesis by (rule conjI [OF 1 conjI [OF 2 conjI [OF 3 conjI [OF 4 5]]]])
qed

theorem role_by_priority_witness:
  "URL_examples ''https://www.linkedin.com/in/jordan-lee-founder-ceo/''
     = Some \<lparr>hostname = ''www.linkedin.com'', pathname = ''/in/jordan-lee-founder-ceo/''\<rparr>
   \<and> extractContactFromLinkedIn URL_examples
         (JStr ''https://www.linkedin.com/in/jordan-lee-founder-ceo/'') ''Acme''
       = [\<lparr>firstName = ''Jordan'', lastName = Some ''Lee'', fullName = ''Jordan Lee'',
           role = ''Founder & CEO'', company = ''Acme'',
           source = ''https://www.linkedin.com/in/jordan-lee-founder-ceo/''\<rparr>]
   \<and> matched_roles URL_examples ''jane-doe-ops-cfo-founder'' 
       = [''Operations Head'', ''Finance Head'', ''Founder'']
   \<and> extractContactFromLinkedIn URL_examples (JStr ''jane-doe-ops-cfo-founder'') ''Acme''
       = [\<lparr>firstName = ''Jane'', lastName = Some ''Doe'', fullName = ''Jane Doe'',
           role = ''Founder & Operations Head & Finance Head'', company = ''Acme'',
           source = ''jane-doe-ops-cfo-founder''\<rparr>]"
proof -
  have u: "URL_examples ''https://www.linkedin.com/in/jordan-lee-founder-ceo/''
     = Some \<lparr>hostname = ''www.linkedin.com'', pathname = ''/in/jordan-lee-founder-ceo/''\<rparr>"
    by (simp add: URL_examples_def)
  then have h: "\<forall>l. URL_examples ''https://www.linkedin.com/in/jordan-lee-founder-ceo/'' = Some l
             \<longrightarrow> pathname l = ''/in/jordan-lee-founder-ceo/''"
    by simp
  have e: "extractContactFromLinkedIn URL_examples
         (JStr ''https://www.linkedin.com/in/jordan-lee-founder-ceo/'') ''Acme''
       = [\<lparr>firstName = ''Jordan'', lastName = Some ''Lee'', fullName = ''Jordan Lee'',
           role = ''Founder & CEO'', company = ''Acme'',
           source = ''https://www.linkedin.com/in/jordan-lee-founder-ceo/''\<rparr>]"
    using role_by_priority [of URL_examples "[]" "[]" "person [] None",
            THEN conjunct2, THEN conjunct2, THEN conjunct2, THEN conjunct2] h
    by (rule mp)
  have m: "matched_roles URL_examples ''jane-doe-ops-cfo-founder''
             = [''Operations Head'', ''Finance Head'', ''Founder'']"
    by code_simp
  have j: "extractContactFromLinkedIn URL_examples (JStr ''jane-doe-ops-cfo-founder'') ''Acme''
       = [\<lparr>firstName = ''Jane'', lastName = Some ''Doe'', fullName = ''Jane Doe'',
           role = ''Founder & Operations Head & Finance Head'', company = ''Acme'',
           source = ''jane-doe-ops-cfo-founder''\<rparr>]"
    by code_simp
  show ?thesis by (rule conjI [OF u conjI [OF e conjI [OF m j]]])
qed

section \<open>Resolution of the domain\<close>

lemma deriveDomain_parse:
  "deriveDomain URL input =
     (case deriveDomain_value input of None \<Rightarrow> None | Some v \<Rightarrow> domain_of_parse (URL v))"
  by (simp add: deriveDomain_def domain_of_parse_def without_www_def startsWith_def Let_def
           split: option.splits)

lemma trim_Nil: "trim [] = []"
  by (simp add: trim_def)

lemma deriveDomain_value_cases:
  "deriveDomain_value input =
     (if trim input = [] then None
      else if \<not> prefix ''http'' (trim input) then Some (''https://'' @ trim input)
      else Some (trim input))"
  by (cases "input = []") (simp_all add: deriveDomain_value_def Let_def startsWith_def trim_Nil)

lemma prefix_http:
  "prefix ''http://'' v \<or> prefix ''https://'' v \<Longrightarrow> prefix ''http'' v"
  by (auto simp: prefix_def)

text \<open>
  Claim C1, as the program has it. \<open>deriveDomain\<close> trims the input and answers \<open>null\<close>
  when nothing is left. It puts \<open>https://\<close> before a string that does not begin with
  \<open>http\<close> and leaves alone a string that begins with \<open>http://\<close> or \<open>https://\<close>; the
  outcome is parsed as a URL. A failed parse gives \<open>null\<close>, a parse the host name in lower
  case without one leading \<open>www.\<close> label. With a parser that reads the host names of
  \<open>https://acme.io\<close>, \<open>https://www.acme.io/x\<close> and \<open>http://acme.io\<close> as the URL standard
  does, the inputs \<open>acme.io\<close>, \<open>https://www.acme.io/x\<close> and \<open>http://acme.io\<close> all give
  \<open>acme.io\<close>.
\<close>

theorem deriveDomain_resolution:
  "(trim input = [] \<longrightarrow> deriveDomain URL input = None)
   \<and> (trim input \<noteq> [] \<and> \<not> prefix ''http'' (trim input) \<longrightarrow>
        deriveDomain URL input = domain_of_parse (URL (''https://'' @ trim input)))
   \<and> (prefix ''http://'' (trim input) \<or> prefix ''https://'' (trim input) \<longrightarrow>
        deriveDomain URL input = domain_of_parse (URL (trim input)))
   \<and> ((\<exists>l. URL ''https://acme.io'' = Some l \<and> hostname l = ''acme.io'') \<longrightarrow>
        deriveDomain URL ''acme.io'' = Some ''acme.io'')
   \<and> ((\<exists>l. URL ''https://www.acme.io/x'' = Some l \<and> hostname l = ''www.acme.io'') \<longrightarrow>
        deriveDomain URL ''https://www.acme.io/x'' = Some ''acme.io'')
   \<and> ((\<exists>l. URL ''http://acme.io'' = Some l \<and> hostname l = ''acme.io'') \<longrightarrow>
        deriveDomain URL ''http://acme.io'' = Some ''acme.io'')"
proof -
  have 1: "trim input = [] \<longrightarrow> deriveDomain URL input = None"
    by (simp add: deriveDomain_parse deriveDomain_value_cases)
  have 2: "trim input \<noteq> [] \<and> \<not> prefix ''http'' (trim input) \<longrightarrow>
        deriveDomain URL input = domain_of_parse (URL (''https://'' @ trim input))"
    by (simp add: deriveDomain_parse deriveDomain_value_cases)
  have 3: "prefix ''http://'' (trim input) \<or> prefix ''https://'' (trim input) \<longrightarrow>
        deriveDomain URL input = domain_of_parse (URL (trim input))"
  proof
    assume a: "prefix ''http://'' (trim input) \<or> prefix ''https://'' (trim input)"
    then have "prefix ''http'' (trim input)" by (rule prefix_http)
    moreover from a have "trim input \<noteq> []" by auto
    ultimately show "deriveDomain URL input = domain_of_parse (URL (trim input))"
      by (simp add: deriveDomain_parse deriveDomain_value_cases)
  qed
  have v1: "deriveDomain_value ''acme.io'' = Some ''https://acme.io''" by code_simp
  have v2: "deriveDomain_value ''https://www.acme.io/x'' = Some ''https://www.acme.io/x''"
    by code_simp
  have v3: "deriveDomain_value ''http://acme.io'' = Some ''http://acme.io''" by code_simp
  have h1: "without_www (toLowerCase ''acme.io'') = ''acme.io''" by code_simp
  have h2: "without_www (toLowerCase ''www.acme.io'') = ''acme.io''" by code_simp
  have 4: "(\<exists>l. URL ''https://acme.io'' = Some l \<and> hostname l = ''acme.io'') \<longrightarrow>
        deriveDomain URL ''acme.io'' = Some ''acme.io''"
    by (auto simp: deriveDomain_parse v1 domain_of_parse_def h1)
  have 5: "(\<exists>l. URL ''https://www.acme.io/x'' = Some l \<and> hostname l = ''www.acme.io'') \<longrightarrow>
        deriveDomain URL ''https://www.acme.io/x'' = Some ''acme.io''"
    by (auto simp: deriveDomain_parse v2 domain_of_parse_def h2)
  have 6: "(\<exists>l. URL ''http://acme.io'' = Some l \<and> hostname l = ''acme.io'') \<longrightarrow>
        deriveDomain URL ''http://acme.io'' = Some ''acme.io''"
    by (auto simp: deriveDomain_parse v3 domain_of_parse_def h1)
  show ?thesis by (rule conjI [OF 1 conjI [OF 2 conjI [OF 3 conjI [OF 4 conjI [OF 5 6]]]]])
qed

theorem deriveDomain_resolution_witness:
  "trim ''   '' = []
   \<and> deriveDomain URL_examples ''   '' = None
   \<and> trim '' acme.io '' = ''acme.io''
   \<and> URL_examples ''https://acme.io'' = Some \<lparr>hostname = ''acme.io'', pathname = ''/''\<rparr>
   \<and> deriveDomain URL_examples '' acme.io ''
       = domain_of_parse (Some \<lparr>hostname = ''acme.io'', pathname = ''/''\<rparr>)
   \<and> deriveDomain URL_examples ''acme.io'' = Some ''acme.io''
   \<and> URL_examples ''https://www.acme.io/x''
       = Some \<lparr>hostname = ''www.acme.io'', pathname = ''/x''\<rparr>
   \<and> deriveDomain URL_examples ''https://www.acme.io/x'' = Some ''acme.io''
   \<and> URL_examples ''http://acme.io'' = Some \<lparr>hostname = ''acme.io'', pathname = ''/''\<rparr>
   \<and> deriveDomain URL_examples ''http://acme.io'' = Some ''acme.io''
   \<and> trim (CHR 0xA0 # ''acme.io'' @ [CHR 0xA0]) = ''acme.io''
   \<and> deriveDomain URL_examples (CHR 0xA0 # ''acme.io'' @ [CHR 0xA0])
       = domain_of_parse (Some \<lparr>hostname = ''acme.io'', pathname = ''/''\<rparr>)"
proof -
  note t = deriveDomain_resolution
  have e: "trim ''   '' = []" by code_simp
  have 1: "deriveDomain URL_examples ''   '' = None"
    using t [of "''   ''" URL_examples, THEN conjunct1] e by (rule mp)
  have a: "trim '' acme.io '' = ''acme.io''" by code_simp
  have u1: "URL_examples ''https://acme.io'' = Some \<lparr>hostname = ''acme.io'', pathname = ''/''\<rparr>"
    by (simp add: URL_examples_def)
  have u2: "URL_examples ''https://www.acme.io/x''
              = Some \<lparr>hostname = ''www.acme.io'', pathname = ''/x''\<rparr>"
    by (simp add: URL_examples_def)
  have u3: "URL_examples ''http://acme.io'' = Some \<lparr>hostname = ''acme.io'', pathname = ''/''\<rparr>"
    by (simp add: URL_examples_def)
  have n: "trim '' acme.io '' \<noteq> [] \<and> \<not> prefix ''http'' (trim '' acme.io '')"
    by (simp add: a)
  have "deriveDomain URL_examples '' acme.io ''
          = domain_of_parse (URL_examples (''https://'' @ trim '' acme.io ''))"
    using t [of "'' acme.io ''" URL_examples, THEN conjunct2, THEN conjunct1] n by (rule mp)
  then have 2: "deriveDomain URL_examples '' acme.io ''
          = domain_of_parse (Some \<lparr>hostname = ''acme.io'', pathname = ''/''\<rparr>)"
    by (simp add: a u1)
  have x1: "\<exists>l. URL_examples ''https://acme.io'' = Some l \<and> hostname l = ''acme.io''"
    by (simp add: u1)
  have x2: "\<exists>l. URL_examples ''https://www.acme.io/x'' = Some l \<and> hostname l = ''www.acme.io''"
    by (simp add: u2)
  have x3: "\<exists>l. URL_examples ''http://acme.io'' = Some l \<and> hostname l = ''acme.io''"
    by (simp add: u3)
  have 4: "deriveDomain URL_examples ''acme.io'' = Some ''acme.io''"
    using t [of "[]" URL_examples, THEN conjunct2, THEN conjunct2, THEN conjunct2, THEN conjunct1]
      x1
    by (rule mp)
  have 5: "deriveDomain URL_examples ''https://www.acme.io/x'' = Some ''acme.io''"
    using t [of "[]" URL_examples, THEN conjunct2, THEN conjunct2, THEN conjunct2, THEN conjunct2,
             THEN conjunct1] x2
    by (rule mp)
  have 6: "deriveDomain URL_examples ''http://acme.io'' = Some ''acme.io''"
    using t [of "[]" URL_examples, THEN conjunct2, THEN conjunct2, THEN conjunct2, THEN conjunct2,
             THEN conjunct2] x3
    by (rule mp)
  have b: "trim (CHR 0xA0 # ''acme.io'' @ [CHR 0xA0]) = ''acme.io''" by code_simp
  have nb: "trim (CHR 0xA0 # ''acme.io'' @ [CHR 0xA0]) \<noteq> []
            \<and> \<not> prefix ''http'' (trim (CHR 0xA0 # ''acme.io'' @ [CHR 0xA0]))"
    unfolding b by simp
  have "deriveDomain URL_examples (CHR 0xA0 # ''acme.io'' @ [CHR 0xA0])
          = domain_of_parse
              (URL_examples (''https://'' @ trim (CHR 0xA0 # ''acme.io'' @ [CHR 0xA0])))"
    using t [of "CHR 0xA0 # ''acme.io'' @ [CHR 0xA0]" URL_examples, THEN conjunct2, THEN conjunct1]
      nb
    by (rule mp)
  then have 7: "deriveDomain URL_examples (CHR 0xA0 # ''acme.io'' @ [CHR 0xA0])
          = domain_of_parse (Some \<lparr>hostname = ''acme.io'', pathname = ''/''\<rparr>)"
    unfolding b by (simp add: u1)
  show ?thesis
    by (rule conjI [OF e conjI [OF 1 conjI [OF a conjI [OF u1 conjI [OF 2 conjI [OF 4
          conjI [OF u2 conjI [OF 5 conjI [OF u3 conjI [OF 6 conjI [OF b 7]]]]]]]]]]])
qed

text \<open>
  The claim as the specification words it, with the prefix added exactly when the trimmed
  string does not start with a URL scheme, fails both ways: \<open>ftp://acme.io\<close> starts with a
  scheme and gets the prefix, \<open>httpbin.org\<close> starts with none and does not get it.
\<close>

theorem deriveDomain_scheme_counterexample:
  "scheme_prefixed (trim ''ftp://acme.io'') = ''ftp://acme.io''
   \<and> deriveDomain_value ''ftp://acme.io'' = Some ''https://ftp://acme.io''
   \<and> scheme_prefixed (trim ''httpbin.org'') = ''https://httpbin.org''
   \<and> deriveDomain_value ''httpbin.org'' = Some ''httpbin.org''"
  by code_simp

section \<open>The entries of a request\<close>

lemma trimmed_field_entry_with:
  "k = ''company'' \<or> k = ''website'' \<Longrightarrow>
   trimmed_field (entry_with entry ps) k = trimmed_field entry k"
  by (auto simp: trimmed_field_def entry_with_def field_def split: option.splits)

lemma profiles_of_entry_with: "profiles_of (entry_with entry ps) = filter truthy ps"
  by (simp add: profiles_of_def entry_with_def)

lemma processEntry_cong:
  assumes "trimmed_field a ''company'' = trimmed_field b ''company''"
    and "trimmed_field a ''website'' = trimmed_field b ''website''"
    and "profiles_of a = profiles_of b"
  shows "processEntry URL fetchHtml w a = processEntry URL fetchHtml w b"
  unfolding processEntry_def assms by (rule refl)

lemma processEntry_entry_with:
  "processEntry URL fetchHtml w entry
     = processEntry URL fetchHtml w (entry_with entry (profiles_of entry))"
proof (rule processEntry_cong)
  have "filter truthy (profiles_of entry) = profiles_of entry"
    by (simp add: profiles_of_def split: option.splits json.splits)
  then show "profiles_of entry = profiles_of (entry_with entry (profiles_of entry))"
    by (simp only: profiles_of_entry_with)
qed (simp_all add: trimmed_field_entry_with)

lemma profiles_of_not_array:
  "\<forall>xs. get_prop entry ''linkedinProfiles'' \<noteq> Some (JArr xs) \<Longrightarrow> profiles_of entry = []"
  by (auto simp: profiles_of_def split: option.splits json.splits)

lemma profiles_of_array:
  "get_prop entry ''linkedinProfiles'' = Some (JArr xs) \<Longrightarrow> profiles_of entry = filter truthy xs"
  by (simp add: profiles_of_def)

lemma processEntry_no_error:
  assumes "trimmed_field entry ''company'' = Inr cn"
    and "trimmed_field entry ''website'' = Inr ws"
  shows "\<exists>rs w'. processEntry URL fetchHtml w entry = (Inr rs, w')"
  using assms
  by (auto simp: processEntry_def Let_def split: option.splits prod.splits)

lemma processEntry_no_profiles:
  assumes "trimmed_field entry ''company'' = Inr cn"
    and "trimmed_field entry ''website'' = Inr ws"
    and "profiles_of entry = []"
  shows "\<exists>w'. processEntry URL fetchHtml w entry = (Inr [], w')"
  using assms
  by (auto simp: processEntry_def Let_def List.map_filter_simps split: option.splits prod.splits)

lemma processEntries_skip:
  assumes "processEntry URL fetchHtml w entry = (Inr [], w')"
  shows "processEntries URL fetchHtml w (entry # rest) = processEntries URL fetchHtml w' rest"
  using assms by (simp split: prod.splits sum.splits)

lemma processEntry_free_provider:
  assumes "trimmed_field entry ''company'' = Inr cn"
    and "trimmed_field entry ''website'' = Inr ws"
    and "deriveDomain URL ws = Some d"
    and "toLowerCase d \<in> set FREE_PROVIDERS"
  shows "processEntry URL fetchHtml w entry = (Inr [], w)"
  using assms by (simp add: processEntry_def Let_def)

lemma processEntries_drop:
  assumes "\<And>w. processEntry URL fetchHtml w entry = (Inr [], w)"
  shows "processEntries URL fetchHtml w (before @ entry # rest)
           = processEntries URL fetchHtml w (before @ rest)"
proof (induction before arbitrary: w)
  case Nil
  show ?case using processEntries_skip [OF assms] by simp
next
  case (Cons b before)
  show ?case by (simp add: Cons.IH split: prod.splits sum.splits)
qed

lemma POST_body_of:
  "entries \<noteq> [] \<Longrightarrow>
   POST URL fetchHtml w (body_of entries)
     = (case processEntries URL fetchHtml w entries of
          (Inl e, w') \<Rightarrow> (ServerError, w')
        | (Inr results, w') \<Rightarrow> (Results (deduplicateResults results), w'))"
  by (simp add: POST_def body_of_def)

lemma processEntry_error_or_rows:
  "(\<exists>e. processEntry URL fetchHtml w entry = (Inl e, w))
   \<or> (\<exists>cn ws. trimmed_field entry ''company'' = Inr cn \<and> trimmed_field entry ''website'' = Inr ws)"
  by (cases "trimmed_field entry ''company''"; cases "trimmed_field entry ''website''")
     (simp_all add: processEntry_def)

text \<open>
  Claim C9. An entry whose website resolves to a free-mail provider, whatever the case of
  the letters, contributes no row, whatever its profile references are: the turn of the
  loop pushes nothing and fetches nothing, and the batch gives what it gives without the
  entry.
\<close>

theorem free_provider_entry:
  "trimmed_field entry ''website'' = Inr ws
   \<and> deriveDomain URL ws = Some d
   \<and> toLowerCase d \<in> set [''gmail.com'', ''yahoo.com'', ''outlook.com'', ''hotmail.com'',
                            ''icloud.com'', ''aol.com'', ''protonmail.com'', ''zoho.com'',
                            ''yandex.com'', ''gmx.com'', ''mail.com'']
   \<longrightarrow> (case fst (processEntry URL fetchHtml w entry) of Inl e \<Rightarrow> True | Inr rs \<Rightarrow> rs = [])
       \<and> snd (processEntry URL fetchHtml w entry) = w
       \<and> (\<forall>cn. trimmed_field entry ''company'' = Inr cn \<longrightarrow>
             processEntry URL fetchHtml w entry = (Inr [], w)
             \<and> processEntries URL fetchHtml w (before @ entry # rest)
                 = processEntries URL fetchHtml w (before @ rest)
             \<and> (before @ rest \<noteq> [] \<longrightarrow>
                   POST URL fetchHtml w (body_of (before @ entry # rest))
                     = POST URL fetchHtml w (body_of (before @ rest)))
             \<and> (before @ rest = [] \<longrightarrow>
                   POST URL fetchHtml w (body_of (before @ entry # rest)) = (Results [], w)))"
proof (intro impI, elim conjE)
  assume ws: "trimmed_field entry ''website'' = Inr ws"
    and d: "deriveDomain URL ws = Some d"
    and "toLowerCase d \<in> set [''gmail.com'', ''yahoo.com'', ''outlook.com'', ''hotmail.com'',
                            ''icloud.com'', ''aol.com'', ''protonmail.com'', ''zoho.com'',
                            ''yandex.com'', ''gmx.com'', ''mail.com'']"
  then have f: "toLowerCase d \<in> set FREE_PROVIDERS" by (simp only: FREE_PROVIDERS_def)
  have ok: "processEntry URL fetchHtml w' entry = (Inr [], w')"
    if "trimmed_field entry ''company'' = Inr cn" for cn w'
    using that ws d f by (rule processEntry_free_provider)
  have 1: "case fst (processEntry URL fetchHtml w entry) of Inl e \<Rightarrow> True | Inr rs \<Rightarrow> rs = []"
    using processEntry_error_or_rows [of URL fetchHtml w entry] ok [of _ w] by auto
  have 2: "snd (processEntry URL fetchHtml w entry) = w"
    using processEntry_error_or_rows [of URL fetchHtml w entry] ok [of _ w] by auto
  have 3: "processEntry URL fetchHtml w entry = (Inr [], w)
             \<and> processEntries URL fetchHtml w (before @ entry # rest)
                 = processEntries URL fetchHtml w (before @ rest)
             \<and> (before @ rest \<noteq> [] \<longrightarrow>
                   POST URL fetchHtml w (body_of (before @ entry # rest))
                     = POST URL fetchHtml w (body_of (before @ rest)))
             \<and> (before @ rest = [] \<longrightarrow>
                   POST URL fetchHtml w (body_of (before @ entry # rest)) = (Results [], w))"
    if c: "trimmed_field entry ''company'' = Inr cn" for cn
  proof -
    have p: "processEntries URL fetchHtml w (before @ entry # rest)
               = processEntries URL fetchHtml w (before @ rest)"
      by (rule processEntries_drop) (rule ok [OF c])
    have "before @ entry # rest \<noteq> []" by simp
    then have "POST URL fetchHtml w (body_of (before @ entry # rest))
               = (case processEntries URL fetchHtml w (before @ entry # rest) of
                    (Inl e, w') \<Rightarrow> (ServerError, w')
                  | (Inr results, w') \<Rightarrow> (Results (deduplicateResults results), w'))"
      by (rule POST_body_of)
    then have q: "POST URL fetchHtml w (body_of (before @ entry # rest))
               = (case processEntries URL fetchHtml w (before @ rest) of
                    (Inl e, w') \<Rightarrow> (ServerError, w')
                  | (Inr results, w') \<Rightarrow> (Results (deduplicateResults results), w'))"
      by (simp only: p)
    have "before @ rest \<noteq> [] \<longrightarrow>
            POST URL fetchHtml w (body_of (before @ entry # rest))
              = POST URL fetchHtml w (body_of (before @ rest))"
      by (simp add: q POST_body_of)
    moreover have "before @ rest = [] \<longrightarrow>
            POST URL fetchHtml w (body_of (before @ entry # rest)) = (Results [], w)"
    proof
      assume e: "before @ rest = []"
      show "POST URL fetchHtml w (body_of (before @ entry # rest)) = (Results [], w)"
        unfolding q e by (simp add: deduplicateResults_def)
    qed
    ultimately show ?thesis using ok [OF c, of w] p by blast
  qed
  from 1 2 3 show "(case fst (processEntry URL fetchHtml w entry) of
                      Inl e \<Rightarrow> True | Inr rs \<Rightarrow> rs = [])
       \<and> snd (processEntry URL fetchHtml w entry) = w
       \<and> (\<forall>cn. trimmed_field entry ''company'' = Inr cn \<longrightarrow>
             processEntry URL fetchHtml w entry = (Inr [], w)
             \<and> processEntries URL fetchHtml w (before @ entry # rest)
                 = processEntries URL fetchHtml w (before @ rest)
             \<and> (before @ rest \<noteq> [] \<longrightarrow>
                   POST URL fetchHtml w (body_of (before @ entry # rest))
                     = POST URL fetchHtml w (body_of (before @ rest)))
             \<and> (before @ rest = [] \<longrightarrow>
                   POST URL fetchHtml w (body_of (before @ entry # rest)) = (Results [], w)))"
    by blast
qed

theorem free_provider_entry_witness:
  "trimmed_field (entry_example '' WWW.Mail.com '' (JArr [JStr ''jordan-lee''])) ''website''
     = Inr ''WWW.Mail.com''
   \<and> trimmed_field (entry_example '' WWW.Mail.com '' (JArr [JStr ''jordan-lee''])) ''company''
       = Inr ''Acme''
   \<and> deriveDomain URL_examples ''WWW.Mail.com'' = Some ''mail.com''
   \<and> processEntry URL_examples no_pages ()
         (entry_example '' WWW.Mail.com '' (JArr [JStr ''jordan-lee'']))
       = (Inr [], ())
   \<and> POST URL_examples no_pages ()
         (body_of [entry_example '' WWW.Mail.com '' (JArr [JStr ''jordan-lee'']),
                   entry_example ''acme.io'' (JArr [JStr ''jordan-lee''])])
       = POST URL_examples no_pages () (body_of [entry_example ''acme.io'' (JArr [JStr ''jordan-lee''])])"
proof -
  let ?e = "entry_example '' WWW.Mail.com '' (JArr [JStr ''jordan-lee''])"
  let ?a = "entry_example ''acme.io'' (JArr [JStr ''jordan-lee''])"
  have ws: "trimmed_field ?e ''website'' = Inr ''WWW.Mail.com''" by code_simp
  have cn: "trimmed_field ?e ''company'' = Inr ''Acme''" by code_simp
  have d: "deriveDomain URL_examples ''WWW.Mail.com'' = Some ''mail.com''" by code_simp
  have f: "toLowerCase ''mail.com''
             \<in> set [''gmail.com'', ''yahoo.com'', ''outlook.com'', ''hotmail.com'',
                    ''icloud.com'', ''aol.com'', ''protonmail.com'', ''zoho.com'',
                    ''yandex.com'', ''gmx.com'', ''mail.com'']"
    by code_simp
  have h: "trimmed_field ?e ''website'' = Inr ''WWW.Mail.com''
           \<and> deriveDomain URL_examples ''WWW.Mail.com'' = Some ''mail.com''
           \<and> toLowerCase ''mail.com''
             \<in> set [''gmail.com'', ''yahoo.com'', ''outlook.com'', ''hotmail.com'',
                    ''icloud.com'', ''aol.com'', ''protonmail.com'', ''zoho.com'',
                    ''yandex.com'', ''gmx.com'', ''mail.com'']"
    using ws d f by (intro conjI)
  note t = free_provider_entry [of ?e "''WWW.Mail.com''" URL_examples "''mail.com''" no_pages "()"
             "[]" "[?a]", THEN mp, OF h]
  from t have "\<forall>cn. trimmed_field ?e ''company'' = Inr cn \<longrightarrow>
             processEntry URL_examples no_pages () ?e = (Inr [], ())
             \<and> processEntries URL_examples no_pages () ([] @ ?e # [?a])
                 = processEntries URL_examples no_pages () ([] @ [?a])
             \<and> ([] @ [?a] \<noteq> [] \<longrightarrow>
                   POST URL_examples no_pages () (body_of ([] @ ?e # [?a]))
                     = POST URL_examples no_pages () (body_of ([] @ [?a])))
             \<and> ([] @ [?a] = [] \<longrightarrow>
                   POST URL_examples no_pages () (body_of ([] @ ?e # [?a])) = (Results [], ()))"
    by (elim conjE)
  with cn have r: "processEntry URL_examples no_pages () ?e = (Inr [], ())"
    and p: "[] @ [?a] \<noteq> [] \<longrightarrow>
                   POST URL_examples no_pages () (body_of ([] @ ?e # [?a]))
                     = POST URL_examples no_pages () (body_of ([] @ [?a]))"
    by blast+
  from p have p': "POST URL_examples no_pages () (body_of [?e, ?a])
                     = POST URL_examples no_pages () (body_of [?a])"
    by simp
  show ?thesis by (rule conjI [OF ws conjI [OF cn conjI [OF d conjI [OF r p']]]])
qed

text \<open>
  Claim C10. An entry whose \<open>linkedinProfiles\<close> is missing or is no array is processed as
  the same entry with an empty list of profiles. When its company and website are strings,
  or are missing or falsy, it pushes no row and throws nothing, and the loop goes on with
  the next entry. In an array of profiles the falsy elements are dropped: the entry is
  processed as with the truthy elements alone, and no element makes the turn throw.
\<close>

theorem profiles_absent_or_falsy:
  "((\<forall>xs. get_prop entry ''linkedinProfiles'' \<noteq> Some (JArr xs)) \<longrightarrow>
      processEntry URL fetchHtml w entry = processEntry URL fetchHtml w (entry_with entry [])
      \<and> (\<forall>cn ws. trimmed_field entry ''company'' = Inr cn
                  \<and> trimmed_field entry ''website'' = Inr ws \<longrightarrow>
            (\<exists>w'. processEntry URL fetchHtml w entry = (Inr [], w')
                  \<and> processEntries URL fetchHtml w (entry # rest)
                      = processEntries URL fetchHtml w' rest)))
   \<and> (get_prop entry ''linkedinProfiles'' = Some (JArr xs) \<longrightarrow>
        processEntry URL fetchHtml w entry
          = processEntry URL fetchHtml w (entry_with entry (filter truthy xs))
        \<and> (\<forall>cn ws. trimmed_field entry ''company'' = Inr cn
                    \<and> trimmed_field entry ''website'' = Inr ws \<longrightarrow>
              (\<exists>rs w'. processEntry URL fetchHtml w entry = (Inr rs, w'))))"
proof (intro conjI impI allI)
  assume n: "\<forall>xs. get_prop entry ''linkedinProfiles'' \<noteq> Some (JArr xs)"
  then have p: "profiles_of entry = []" by (rule profiles_of_not_array)
  show "processEntry URL fetchHtml w entry = processEntry URL fetchHtml w (entry_with entry [])"
    using processEntry_entry_with [of URL fetchHtml w entry] by (simp only: p)
  fix cn ws
  assume "trimmed_field entry ''company'' = Inr cn \<and> trimmed_field entry ''website'' = Inr ws"
  then have "\<exists>w'. processEntry URL fetchHtml w entry = (Inr [], w')"
    using p by (auto intro: processEntry_no_profiles)
  then obtain w' where r: "processEntry URL fetchHtml w entry = (Inr [], w')" by blast
  then have "processEntries URL fetchHtml w (entry # rest) = processEntries URL fetchHtml w' rest"
    by (rule processEntries_skip)
  with r show "\<exists>w'. processEntry URL fetchHtml w entry = (Inr [], w')
                  \<and> processEntries URL fetchHtml w (entry # rest)
                      = processEntries URL fetchHtml w' rest"
    by blast
next
  assume a: "get_prop entry ''linkedinProfiles'' = Some (JArr xs)"
  then have p: "profiles_of entry = filter truthy xs" by (rule profiles_of_array)
  show "processEntry URL fetchHtml w entry
          = processEntry URL fetchHtml w (entry_with entry (filter truthy xs))"
    using processEntry_entry_with [of URL fetchHtml w entry] by (simp only: p)
next
  fix cn ws
  assume "trimmed_field entry ''company'' = Inr cn \<and> trimmed_field entry ''website'' = Inr ws"
  then show "\<exists>rs w'. processEntry URL fetchHtml w entry = (Inr rs, w')"
    by (auto intro: processEntry_no_error)
qed

theorem profiles_absent_or_falsy_witness:
  "get_prop (entry_example ''acme.io'' (JStr ''jordan-lee'')) ''linkedinProfiles''
     = Some (JStr ''jordan-lee'')
   \<and> trimmed_field (entry_example ''acme.io'' (JStr ''jordan-lee'')) ''company'' = Inr ''Acme''
   \<and> trimmed_field (entry_example ''acme.io'' (JStr ''jordan-lee'')) ''website'' = Inr ''acme.io''
   \<and> processEntry URL_examples no_pages () (entry_example ''acme.io'' (JStr ''jordan-lee''))
       = (Inr [], ())
   \<and> get_prop (entry_example ''acme.io''
                 (JArr [JNull, JStr [], JNum 0, JBool False, JStr ''jordan-lee'']))
        ''linkedinProfiles''
       = Some (JArr [JNull, JStr [], JNum 0, JBool False, JStr ''jordan-lee''])
   \<and> processEntry URL_examples no_pages ()
        (entry_example ''acme.io'' (JArr [JNull, JStr [], JNum 0, JBool False, JStr ''jordan-lee'']))
       = processEntry URL_examples no_pages ()
           (entry_with
              (entry_example ''acme.io''
                 (JArr [JNull, JStr [], JNum 0, JBool False, JStr ''jordan-lee'']))
              [JStr ''jordan-lee''])
   \<and> processEntry URL_examples no_pages ()
        (entry_example ''acme.io'' (JArr [JNull, JStr [], JNum 0, JBool False, JStr ''jordan-lee'']))
       = (Inr [row ''Jordan Lee'' ''Acme'' ''jordan.lee@acme.io''], ())"
proof -
  let ?e1 = "entry_example ''acme.io'' (JStr ''jordan-lee'')"
  let ?xs = "[JNull, JStr [], JNum 0, JBool False, JStr ''jordan-lee'']"
  let ?e2 = "entry_example ''acme.io'' (JArr ?xs)"
  note t = profiles_absent_or_falsy
  have g1: "get_prop ?e1 ''linkedinProfiles'' = Some (JStr ''jordan-lee'')" by code_simp
  then have n: "\<forall>xs. get_prop ?e1 ''linkedinProfiles'' \<noteq> Some (JArr xs)" by simp
  have c1: "trimmed_field ?e1 ''company'' = Inr ''Acme''" by code_simp
  have w1: "trimmed_field ?e1 ''website'' = Inr ''acme.io''" by code_simp
  from t [of ?e1 URL_examples no_pages "()" "[]", THEN conjunct1, THEN mp, OF n]
  have "\<forall>cn ws. trimmed_field ?e1 ''company'' = Inr cn
                  \<and> trimmed_field ?e1 ''website'' = Inr ws \<longrightarrow>
            (\<exists>w'. processEntry URL_examples no_pages () ?e1 = (Inr [], w')
                  \<and> processEntries URL_examples no_pages () (?e1 # [])
                      = processEntries URL_examples no_pages w' [])"
    by (rule conjunct2)
  with c1 w1 have "\<exists>w'. processEntry URL_examples no_pages () ?e1 = (Inr [], w')" by blast
  then have r1: "processEntry URL_examples no_pages () ?e1 = (Inr [], ())" by simp
  have g2: "get_prop ?e2 ''linkedinProfiles'' = Some (JArr ?xs)" by code_simp
  have f: "filter truthy ?xs = [JStr ''jordan-lee'']" by simp
  from t [of ?e2 URL_examples no_pages "()" "[]" ?xs, THEN conjunct2, THEN mp, OF g2,
          THEN conjunct1]
  have r2: "processEntry URL_examples no_pages () ?e2
              = processEntry URL_examples no_pages () (entry_with ?e2 [JStr ''jordan-lee''])"
    by (simp only: f)
  have r3: "processEntry URL_examples no_pages () ?e2
              = (Inr [row ''Jordan Lee'' ''Acme'' ''jordan.lee@acme.io''], ())"
    by code_simp
  show ?thesis
    by (rule conjI [OF g1 conjI [OF c1 conjI [OF w1 conjI [OF r1 conjI [OF g2 conjI [OF r2 r3]]]]]])
qed

section \<open>The rows of a batch\<close>


lemma emit_synthesized:
  assumes "emit pd d cn c = Some r" and "CHR ''@'' \<notin> set d"
  shows "synthesized r"
proof -
  from assms(1) have "buildEmail c d (emailPattern_of pd c) = Some (r_email r)"
    by (auto simp: emit_def Let_def split: option.splits)
  with assms(2) show ?thesis unfolding synthesized_def by blast
qed

lemma deriveDomain_no_at:
  assumes "\<forall>s l. URL s = Some l \<longrightarrow> CHR ''@'' \<notin> set (hostname l)"
    and "deriveDomain URL ws = Some d"
  shows "CHR ''@'' \<notin> set d"
proof -
  from assms(2) obtain v l where l: "URL v = Some l"
    and d: "d = without_www (toLowerCase (hostname l))"
    by (auto simp: deriveDomain_parse domain_of_parse_def split: option.splits)
  from assms(1) l have "CHR ''@'' \<notin> set (hostname l)" by blast
  then have "CHR ''@'' \<notin> set (toLowerCase (hostname l))" by (simp add: toLowerCase_keeps_at)
  then show ?thesis by (auto simp: d without_www_def dest: in_set_dropD)
qed

lemma map_filter_SomeD: "r \<in> set (List.map_filter f xs) \<Longrightarrow> \<exists>x. f x = Some r"
  by (induction xs) (auto simp: List.map_filter_simps split: option.splits)

lemma processEntry_synthesized:
  assumes "\<forall>s l. URL s = Some l \<longrightarrow> CHR ''@'' \<notin> set (hostname l)"
    and "processEntry URL fetchHtml w entry = (Inr rows, w')"
  shows "\<forall>r\<in>set rows. synthesized r"
proof
  fix r assume r: "r \<in> set rows"
  from assms(2) r obtain cn ws d pd where
    d: "deriveDomain URL ws = Some d"
    and m: "r \<in> set (List.map_filter (emit pd d cn)
                       (concat (map (\<lambda>profile. extractContactFromLinkedIn URL profile cn)
                                  (profiles_of entry))))"
    by (auto simp: processEntry_def Let_def split: sum.splits option.splits if_splits prod.splits)
  from m obtain c where "emit pd d cn c = Some r" by (auto dest: map_filter_SomeD)
  moreover from assms(1) d have "CHR ''@'' \<notin> set d" by (rule deriveDomain_no_at)
  ultimately show "synthesized r" by (rule emit_synthesized)
qed

lemma processEntries_synthesized:
  assumes "\<forall>s l. URL s = Some l \<longrightarrow> CHR ''@'' \<notin> set (hostname l)"
    and "processEntries URL fetchHtml w entries = (Inr rows, w')"
  shows "\<forall>r\<in>set rows. synthesized r"
  using assms(2)
proof (induction entries arbitrary: w rows)
  case Nil
  then show ?case by simp
next
  case (Cons e es)
  from Cons.prems obtain rs w1 rs' where
    1: "processEntry URL fetchHtml w e = (Inr rs, w1)"
    and 2: "processEntries URL fetchHtml w1 es = (Inr rs', w')"
    and 3: "rows = rs @ rs'"
    by (auto split: prod.splits sum.splits)
  from processEntry_synthesized [OF assms(1) 1] Cons.IH [OF 2] 3 show ?case by auto
qed


text \<open>
  Claim C2. In a batch of emitted rows, deduplication removes a row exactly when an
  earlier row of the batch has the same company and the same address, case ignored; the
  rows that stay keep their order. In other words, the outcome is the batch restricted to
  the positions without such an earlier row. The rows that the loop over the entries
  pushes are emitted rows, the parser giving host names without \<open>@\<close> as the URL standard
  has it, so that the result list of the answer is the pushed rows restricted to these
  positions. The case of an accented letter is ignored as well: two rows with one address
  and the companies Cafe and CAFE, written with U+00E9 and with U+00C9, are one contact.
\<close>

theorem deduplicateResults_first_occurrences:
  "((\<forall>r\<in>set rs. synthesized r) \<longrightarrow>
      deduplicateResults rs
        = map ((!) rs)
            (filter (\<lambda>i. \<not> (\<exists>j<i. same_contact (rs ! j) (rs ! i))) [0..<length rs]))
   \<and> ((\<forall>s l. URL s = Some l \<longrightarrow> CHR ''@'' \<notin> set (hostname l))
        \<and> processEntries URL fetchHtml w entries = (Inr rows, w') \<longrightarrow>
          (\<forall>r\<in>set rows. synthesized r)
          \<and> (entries \<noteq> [] \<longrightarrow>
                POST URL fetchHtml w (body_of entries)
                  = (Results
                       (map ((!) rows)
                          (filter (\<lambda>i. \<not> (\<exists>j<i. same_contact (rows ! j) (rows ! i)))
                             [0..<length rows])),
                     w')))"
proof -
  have idx: "deduplicateResults xs
               = map ((!) xs)
                   (filter (\<lambda>i. \<not> (\<exists>j<i. same_contact (xs ! j) (xs ! i))) [0..<length xs])"
    if syn: "\<forall>r\<in>set xs. synthesized r" for xs
  proof -
    have "filter (\<lambda>i. signature (xs ! i) \<notin> {}
                        \<and> \<not> (\<exists>j<i. signature (xs ! j) = signature (xs ! i)))
              [0..<length xs]
          = filter (\<lambda>i. \<not> (\<exists>j<i. same_contact (xs ! j) (xs ! i))) [0..<length xs]"
    proof (rule filter_cong [OF refl])
      fix i assume "i \<in> set [0..<length xs]"
      then have i: "i < length xs" by simp
      have "signature (xs ! j) = signature (xs ! i) \<longleftrightarrow> same_contact (xs ! j) (xs ! i)"
        if "j < i" for j
      proof -
        from that i have "xs ! j \<in> set xs" "xs ! i \<in> set xs" by simp_all
        with syn show ?thesis by (intro signature_injective) blast+
      qed
      then show "(signature (xs ! i) \<notin> {}
                    \<and> \<not> (\<exists>j<i. signature (xs ! j) = signature (xs ! i)))
                 = (\<not> (\<exists>j<i. same_contact (xs ! j) (xs ! i)))"
        by auto
    qed
    then show ?thesis by (simp only: deduplicateResults_def dedup_loop_index)
  qed
  have 1: "(\<forall>r\<in>set rs. synthesized r) \<longrightarrow>
      deduplicateResults rs
        = map ((!) rs)
            (filter (\<lambda>i. \<not> (\<exists>j<i. same_contact (rs ! j) (rs ! i))) [0..<length rs])"
    using idx by (rule impI)
  have 2: "(\<forall>s l. URL s = Some l \<longrightarrow> CHR ''@'' \<notin> set (hostname l))
        \<and> processEntries URL fetchHtml w entries = (Inr rows, w') \<longrightarrow>
          (\<forall>r\<in>set rows. synthesized r)
          \<and> (entries \<noteq> [] \<longrightarrow>
                POST URL fetchHtml w (body_of entries)
                  = (Results
                       (map ((!) rows)
                          (filter (\<lambda>i. \<not> (\<exists>j<i. same_contact (rows ! j) (rows ! i)))
                             [0..<length rows])),
                     w'))"
  proof (intro impI, elim conjE)
    assume h: "\<forall>s l. URL s = Some l \<longrightarrow> CHR ''@'' \<notin> set (hostname l)"
      and p: "processEntries URL fetchHtml w entries = (Inr rows, w')"
    from h p have syn: "\<forall>r\<in>set rows. synthesized r" by (rule processEntries_synthesized)
    have "POST URL fetchHtml w (body_of entries)
            = (Results
                 (map ((!) rows)
                    (filter (\<lambda>i. \<not> (\<exists>j<i. same_contact (rows ! j) (rows ! i)))
                       [0..<length rows])),
               w')"
      if "entries \<noteq> []"
      using POST_body_of [OF that, of URL fetchHtml w] by (simp add: p idx [OF syn])
    with syn show "(\<forall>r\<in>set rows. synthesized r)
          \<and> (entries \<noteq> [] \<longrightarrow>
                POST URL fetchHtml w (body_of entries)
                  = (Results
                       (map ((!) rows)
                          (filter (\<lambda>i. \<not> (\<exists>j<i. same_contact (rows ! j) (rows ! i)))
                             [0..<length rows])),
                     w'))"
      by blast
  qed
  show ?thesis by (rule conjI [OF 1 2])
qed

theorem deduplicateResults_first_occurrences_witness:
  "synthesized (row ''Jordan Lee'' ''Acme'' ''jordan.lee@acme.io'')
   \<and> synthesized (row ''Jordan Lee'' ''ACME'' ''jordan.lee@acme.io'')
   \<and> synthesized (row ''Sam Ray'' ''Acme'' ''sam.ray@acme.io'')
   \<and> map ((!) [row ''Jordan Lee'' ''Acme'' ''jordan.lee@acme.io'',
               row ''Jordan Lee'' ''ACME'' ''jordan.lee@acme.io'',
               row ''Sam Ray'' ''Acme'' ''sam.ray@acme.io''])
        (filter
           (\<lambda>i. \<not> (\<exists>j<i. same_contact
                          ([row ''Jordan Lee'' ''Acme'' ''jordan.lee@acme.io'',
                            row ''Jordan Lee'' ''ACME'' ''jordan.lee@acme.io'',
                            row ''Sam Ray'' ''Acme'' ''sam.ray@acme.io''] ! j)
                          ([row ''Jordan Lee'' ''Acme'' ''jordan.lee@acme.io'',
                            row ''Jordan Lee'' ''ACME'' ''jordan.lee@acme.io'',
                            row ''Sam Ray'' ''Acme'' ''sam.ray@acme.io''] ! i)))
           [0..<length [row ''Jordan Lee'' ''Acme'' ''jordan.lee@acme.io'',
                        row ''Jordan Lee'' ''ACME'' ''jordan.lee@acme.io'',
                        row ''Sam Ray'' ''Acme'' ''sam.ray@acme.io'']])
      = [row ''Jordan Lee'' ''Acme'' ''jordan.lee@acme.io'',
         row ''Sam Ray'' ''Acme'' ''sam.ray@acme.io'']
   \<and> processEntries URL_examples no_pages ()
        [JObj [(''company'', JStr (''Caf'' @ [CHR 0xE9])), (''website'', JStr ''acme.io''),
               (''linkedinProfiles'', JArr [JStr ''jordan-lee''])],
         JObj [(''company'', JStr (''CAF'' @ [CHR 0xC9])),
               (''website'', JStr (CHR 0xA0 # ''https://www.acme.io/x'')),
               (''linkedinProfiles'', JArr [JStr ''Jordan_Lee''])]]
      = (Inr [\<lparr>r_name = ''Jordan Lee'', r_role = ''Decision Maker'',
                r_company = ''Caf'' @ [CHR 0xE9], r_email = ''jordan.lee@acme.io'',
                r_confidence = Medium, r_source = ''jordan-lee | https://acme.io''\<rparr>,
              \<lparr>r_name = ''Jordan Lee'', r_role = ''Decision Maker'',
                r_company = ''CAF'' @ [CHR 0xC9], r_email = ''jordan.lee@acme.io'',
                r_confidence = Medium, r_source = ''Jordan_Lee | https://acme.io''\<rparr>],
         ())
   \<and> synthesized \<lparr>r_name = ''Jordan Lee'', r_role = ''Decision Maker'',
                   r_company = ''CAF'' @ [CHR 0xC9], r_email = ''jordan.lee@acme.io'',
                   r_confidence = Medium, r_source = ''Jordan_Lee | https://acme.io''\<rparr>
   \<and> POST URL_examples no_pages ()
        (body_of
           [JObj [(''company'', JStr (''Caf'' @ [CHR 0xE9])), (''website'', JStr ''acme.io''),
                  (''linkedinProfiles'', JArr [JStr ''jordan-lee''])],
            JObj [(''company'', JStr (''CAF'' @ [CHR 0xC9])),
                  (''website'', JStr (CHR 0xA0 # ''https://www.acme.io/x'')),
                  (''linkedinProfiles'', JArr [JStr ''Jordan_Lee''])]])
      = (Results [\<lparr>r_name = ''Jordan Lee'', r_role = ''Decision Maker'',
                    r_company = ''Caf'' @ [CHR 0xE9], r_email = ''jordan.lee@acme.io'',
                    r_confidence = Medium, r_source = ''jordan-lee | https://acme.io''\<rparr>],
         ())"
proof -
  let ?r1 = "row ''Jordan Lee'' ''Acme'' ''jordan.lee@acme.io''"
  let ?r2 = "row ''Jordan Lee'' ''ACME'' ''jordan.lee@acme.io''"
  let ?r3 = "row ''Sam Ray'' ''Acme'' ''sam.ray@acme.io''"
  let ?es = "[JObj [(''company'', JStr (''Caf'' @ [CHR 0xE9])), (''website'', JStr ''acme.io''),
                    (''linkedinProfiles'', JArr [JStr ''jordan-lee''])],
              JObj [(''company'', JStr (''CAF'' @ [CHR 0xC9])),
                    (''website'', JStr (CHR 0xA0 # ''https://www.acme.io/x'')),
                    (''linkedinProfiles'', JArr [JStr ''Jordan_Lee''])]]"
  let ?ra = "\<lparr>r_name = ''Jordan Lee'', r_role = ''Decision Maker'',
              r_company = ''Caf'' @ [CHR 0xE9], r_email = ''jordan.lee@acme.io'',
              r_confidence = Medium, r_source = ''jordan-lee | https://acme.io''\<rparr>"
  let ?rb = "\<lparr>r_name = ''Jordan Lee'', r_role = ''Decision Maker'',
              r_company = ''CAF'' @ [CHR 0xC9], r_email = ''jordan.lee@acme.io'',
              r_confidence = Medium, r_source = ''Jordan_Lee | https://acme.io''\<rparr>"
  note t = deduplicateResults_first_occurrences
  have j: "buildEmail (person ''Jordan'' (Some ''Lee'')) ''acme.io'' FirstLast
             = Some ''jordan.lee@acme.io''"
    by code_simp
  have r: "buildEmail (person ''Sam'' (Some ''Ray'')) ''acme.io'' FirstLast
             = Some ''sam.ray@acme.io''"
    by code_simp
  have a: "CHR ''@'' \<notin> set ''acme.io''" by simp
  have s1: "synthesized ?r1"
    unfolding synthesized_def
    by (intro exI [of _ "person ''Jordan'' (Some ''Lee'')"] exI [of _ "''acme.io''"]
          exI [of _ FirstLast])
       (simp only: row_def result.simps a j simp_thms)
  have s2: "synthesized ?r2"
    unfolding synthesized_def
    by (intro exI [of _ "person ''Jordan'' (Some ''Lee'')"] exI [of _ "''acme.io''"]
          exI [of _ FirstLast])
       (simp only: row_def result.simps a j simp_thms)
  have s3: "synthesized ?r3"
    unfolding synthesized_def
    by (intro exI [of _ "person ''Sam'' (Some ''Ray'')"] exI [of _ "''acme.io''"]
          exI [of _ FirstLast])
       (simp only: row_def result.simps a r simp_thms)
  have d: "deduplicateResults [?r1, ?r2, ?r3] = [?r1, ?r3]" by code_simp
  have all: "\<forall>r\<in>set [?r1, ?r2, ?r3]. synthesized r" using s1 s2 s3 by simp
  have m: "map ((!) [?r1, ?r2, ?r3])
          (filter (\<lambda>i. \<not> (\<exists>j<i. same_contact ([?r1, ?r2, ?r3] ! j) ([?r1, ?r2, ?r3] ! i)))
             [0..<length [?r1, ?r2, ?r3]])
        = [?r1, ?r3]"
    using t [where rs = "[?r1, ?r2, ?r3]", THEN conjunct1, THEN mp, OF all, symmetric] d
    by (rule trans)
  have h: "\<forall>s l. URL_examples s = Some l \<longrightarrow> CHR ''@'' \<notin> set (hostname l)"
    by (auto simp: URL_examples_def split: if_splits)
  have p: "processEntries URL_examples no_pages () ?es = (Inr [?ra, ?rb], ())" by code_simp
  have ne: "?es \<noteq> []" by simp
  note b = t [where URL = URL_examples and fetchHtml = no_pages and w = "()" and entries = ?es
               and rows = "[?ra, ?rb]" and w' = "()" and rs = "[?ra, ?rb]"]
  have c: "(\<forall>r\<in>set [?ra, ?rb]. synthesized r)
           \<and> (?es \<noteq> [] \<longrightarrow>
                POST URL_examples no_pages () (body_of ?es)
                  = (Results
                       (map ((!) [?ra, ?rb])
                          (filter (\<lambda>i. \<not> (\<exists>j<i. same_contact ([?ra, ?rb] ! j) ([?ra, ?rb] ! i)))
                             [0..<length [?ra, ?rb]])),
                     ()))"
    using b [THEN conjunct2] conjI [OF h p] by (rule mp)
  from c have syn: "\<forall>r\<in>set [?ra, ?rb]. synthesized r" by (rule conjunct1)
  then have sb: "synthesized ?rb" by simp
  have post: "POST URL_examples no_pages () (body_of ?es)
                  = (Results
                       (map ((!) [?ra, ?rb])
                          (filter (\<lambda>i. \<not> (\<exists>j<i. same_contact ([?ra, ?rb] ! j) ([?ra, ?rb] ! i)))
                             [0..<length [?ra, ?rb]])),
                     ())"
    using c [THEN conjunct2] ne by (rule mp)
  have d2: "deduplicateResults [?ra, ?rb] = [?ra]" by code_simp
  have m2: "map ((!) [?ra, ?rb])
              (filter (\<lambda>i. \<not> (\<exists>j<i. same_contact ([?ra, ?rb] ! j) ([?ra, ?rb] ! i)))
                 [0..<length [?ra, ?rb]])
            = [?ra]"
    using b [THEN conjunct1, THEN mp, OF syn, symmetric] d2 by (rule trans)
  have post2: "POST URL_examples no_pages () (body_of ?es) = (Results [?ra], ())"
    using post unfolding m2 .
  show ?thesis
    by (rule conjI [OF s1 conjI [OF s2 conjI [OF s3 conjI [OF m conjI [OF p conjI [OF sb post2]]]]]])
qed

end
